theory Spec2Isabelle
  imports Main "HOL-Library.Char_ord" "HOL-Library.List_Lexorder"
begin

section \<open>Characters and strings of the scripts\<close>

text \<open>
  The scripts work on Python \<open>str\<close> values: sequences of Unicode code points. A
  character is modelled as its code point, a natural number, and a \<open>str\<close> as a list of
  code points. \<open>U c\<close> is the code point of the ASCII character \<open>c\<close>, and \<open>ustr s\<close> the
  \<open>str\<close> of an ASCII literal of the source.
\<close>

type_synonym uchar = nat
type_synonym ustring = "nat list"

abbreviation U :: "char \<Rightarrow> uchar" where "U c \<equiv> of_char c"

definition ustr :: "string \<Rightarrow> ustring" where
  "ustr s = map of_char s"

abbreviation NL :: uchar where "NL \<equiv> 10"

text \<open>
  The classes \<open>\<^verbatim>\<open>\s\<close>\<close>, \<open>\<^verbatim>\<open>\d\<close>\<close> and \<open>\<^verbatim>\<open>\w\<close>\<close> of a \<open>str\<close> pattern, the characters
  \<open>str.strip()\<close> removes (the same as \<open>\<^verbatim>\<open>\s\<close>\<close>), \<open>str.isupper()\<close> of one character and
  \<open>str.lower()\<close> are read from the Unicode tables of the Python runtime. The tables are
  not part of the repository; the model takes them as a parameter \<open>db\<close>.
\<close>

record unicode =
  is_space :: "uchar \<Rightarrow> bool"
  is_digit :: "uchar \<Rightarrow> bool"
  is_word :: "uchar \<Rightarrow> bool"
  is_upper :: "uchar \<Rightarrow> bool"
  lower :: "ustring \<Rightarrow> ustring"

text \<open>
  What the proofs use of the tables. On ASCII the classes and \<open>lower\<close> are the familiar
  ones; no word character is a space; every character that \<open>lower\<close> produces is left
  unchanged by \<open>lower\<close>, and a string of such characters is left unchanged as a whole.
\<close>

definition python_tables :: "unicode \<Rightarrow> bool" where
  "python_tables db =
     ((\<forall>c<128. is_space db c = (9 \<le> c \<and> c \<le> 13 \<or> 28 \<le> c \<and> c \<le> 32))
      \<and> (\<forall>c<128. is_digit db c = (48 \<le> c \<and> c \<le> 57))
      \<and> (\<forall>c<128. is_word db c = (48 \<le> c \<and> c \<le> 57 \<or> 65 \<le> c \<and> c \<le> 90 \<or> c = 95 \<or> 97 \<le> c \<and> c \<le> 122))
      \<and> (\<forall>c. is_word db c \<longrightarrow> \<not> is_space db c)
      \<and> (\<forall>c<128. lower db [c] = [if 65 \<le> c \<and> c \<le> 90 then c + 32 else c])
      \<and> (\<forall>s. \<forall>c\<in>set (lower db s). lower db [c] = [c])
      \<and> (\<forall>s. (\<forall>c\<in>set s. lower db [c] = [c]) \<longrightarrow> lower db s = s))"

text \<open>
  A table for the examples: the values of CPython for the code points below 256 and for
  U+211D (a capital letter without a lower-case form). The examples use no other code
  point.
\<close>

definition sample_space :: "uchar \<Rightarrow> bool" where
  "sample_space c = ((9 \<le> c \<and> c \<le> 13) \<or> (28 \<le> c \<and> c \<le> 32) \<or> c = 133 \<or> c = 160)"

definition sample_digit :: "uchar \<Rightarrow> bool" where
  "sample_digit c = (48 \<le> c \<and> c \<le> 57)"

definition sample_word :: "uchar \<Rightarrow> bool" where
  "sample_word c = ((48 \<le> c \<and> c \<le> 57) \<or> (65 \<le> c \<and> c \<le> 90) \<or> c = 95
     \<or> (97 \<le> c \<and> c \<le> 122) \<or> c = 170 \<or> c = 178 \<or> c = 179 \<or> c = 181
     \<or> c = 185 \<or> c = 186 \<or> (188 \<le> c \<and> c \<le> 190) \<or> (192 \<le> c \<and> c \<le> 214)
     \<or> (216 \<le> c \<and> c \<le> 246) \<or> (248 \<le> c \<and> c \<le> 255) \<or> c = 8477)"

definition sample_upper :: "uchar \<Rightarrow> bool" where
  "sample_upper c = ((65 \<le> c \<and> c \<le> 90) \<or> (192 \<le> c \<and> c \<le> 214) \<or> (216 \<le> c \<and> c \<le> 222) \<or> c = 8477)"

definition sample_lower_chr :: "uchar \<Rightarrow> uchar" where
  "sample_lower_chr c =
     (if (65 \<le> c \<and> c \<le> 90) \<or> (192 \<le> c \<and> c \<le> 214) \<or> (216 \<le> c \<and> c \<le> 222) then c + 32 else c)"

definition sample_tables :: unicode where
  "sample_tables = \<lparr> is_space = sample_space, is_digit = sample_digit, is_word = sample_word,
     is_upper = sample_upper, lower = map sample_lower_chr \<rparr>"

text \<open>\<open>sep.join(xs)\<close>.\<close>

fun join :: "ustring \<Rightarrow> ustring list \<Rightarrow> ustring" where
  "join sep [] = []"
| "join sep [x] = x"
| "join sep (x # y # ys) = x @ sep @ join sep (y # ys)"

text \<open>\<open>s.startswith(p)\<close> and \<open>s.endswith(p)\<close>.\<close>

fun startswith :: "ustring \<Rightarrow> ustring \<Rightarrow> bool" where
  "startswith s [] = True"
| "startswith [] (p # ps) = False"
| "startswith (c # cs) (p # ps) = (c = p \<and> startswith cs ps)"

definition endswith :: "ustring \<Rightarrow> ustring \<Rightarrow> bool" where
  "endswith s p = startswith (rev s) (rev p)"

text \<open>\<open>sub in s\<close>.\<close>

fun contains :: "ustring \<Rightarrow> ustring \<Rightarrow> bool" where
  "contains [] sub = (sub = [])"
| "contains (c # cs) sub = (startswith (c # cs) sub \<or> contains cs sub)"

text \<open>\<open>s.strip()\<close> and \<open>s.strip(chars)\<close>.\<close>

definition strip_by :: "(uchar \<Rightarrow> bool) \<Rightarrow> ustring \<Rightarrow> ustring" where
  "strip_by p s = rev (dropWhile p (rev (dropWhile p s)))"

definition strip :: "unicode \<Rightarrow> ustring \<Rightarrow> ustring" where
  "strip db s = strip_by (is_space db) s"

definition strip_chars :: "ustring \<Rightarrow> ustring \<Rightarrow> ustring" where
  "strip_chars chars s = strip_by (\<lambda>c. c \<in> set chars) s"

text \<open>
  \<open>s.split(sep)\<close> for a separator of one character, and for the two-character
  separator of the paragraph pass. Both scan from the left and never return an empty list.
\<close>

fun split_chr :: "uchar \<Rightarrow> ustring \<Rightarrow> ustring list" where
  "split_chr sep [] = [[]]"
| "split_chr sep (c # cs) =
     (if c = sep then [] # split_chr sep cs
      else (case split_chr sep cs of [] \<Rightarrow> [[c]] | x # xs \<Rightarrow> (c # x) # xs))"

fun split_nlnl :: "ustring \<Rightarrow> ustring list" where
  "split_nlnl [] = [[]]"
| "split_nlnl [c] = [[c]]"
| "split_nlnl (c # d # cs) =
     (if c = NL \<and> d = NL then [] # split_nlnl cs
      else (case split_nlnl (d # cs) of [] \<Rightarrow> [[c]] | x # xs \<Rightarrow> (c # x) # xs))"

text \<open>\<open>s.replace(old, new)\<close> for a one-character \<open>old\<close>.\<close>

definition replace_chr :: "uchar \<Rightarrow> ustring \<Rightarrow> ustring \<Rightarrow> ustring" where
  "replace_chr old new s = concat (map (\<lambda>c. if c = old then new else [c]) s)"

section \<open>Regular expressions as the scripts use them\<close>

text \<open>
  The patterns of the scripts are built from character classes, sequencing, the greedy
  \<open>?\<close>, \<open>*\<close> and \<open>+\<close>, the lazy \<open>*?\<close>, capturing groups and the anchors. \<open>Bol\<close> and
  \<open>Eol\<close> are \<open>^\<close> and \<open>$\<close> under \<open>re.MULTILINE\<close>; \<open>Bos\<close> and \<open>Eos\<close> are the same
  anchors without the flag.
\<close>

datatype re =
    Eps
  | Chr "uchar \<Rightarrow> bool"
  | Seq re re
  | Opt re
  | Star re
  | LStar re
  | Grp nat re
  | Bol
  | Eol
  | Bos
  | Eos

text \<open>
  A matching position: the character before it (\<open>None\<close> at the start of the string),
  the rest of the string, and the groups captured so far.
\<close>

type_synonym groups = "nat \<rightharpoonup> ustring"
type_synonym pos = "uchar option \<times> ustring \<times> groups"

definition rest :: "pos \<Rightarrow> ustring" where
  "rest p = fst (snd p)"

text \<open>
  \<open>ms r p\<close> lists the positions where a match of \<open>r\<close> that starts at \<open>p\<close> can end, in
  the order in which the backtracking matcher of \<open>re\<close> tries them: a greedy operator
  lists the longer repetition first, a lazy one the shorter. The first element is the
  match \<open>re\<close> reports. A repetition only continues after an iteration that consumed input.
\<close>

function ms :: "re \<Rightarrow> pos \<Rightarrow> pos list" where
  "ms Eps p = [p]"
| "ms (Chr f) p =
     (case p of (prev, s, g) \<Rightarrow>
        (case s of [] \<Rightarrow> [] | c # cs \<Rightarrow> if f c then [(Some c, cs, g)] else []))"
| "ms (Seq r1 r2) p = concat (map (ms r2) (ms r1 p))"
| "ms (Opt r) p = ms r p @ [p]"
| "ms (Star r) p =
     concat (map (\<lambda>q. if length (rest q) < length (rest p) then ms (Star r) q else []) (ms r p)) @ [p]"
| "ms (LStar r) p =
     p # concat (map (\<lambda>q. if length (rest q) < length (rest p) then ms (LStar r) q else []) (ms r p))"
| "ms (Grp n r) p =
     map (\<lambda>q. case q of (prev', s', g') \<Rightarrow>
            (prev', s', g'(n \<mapsto> take (length (rest p) - length s') (rest p)))) (ms r p)"
| "ms Bol p = (case p of (prev, s, g) \<Rightarrow> if prev = None \<or> prev = Some NL then [p] else [])"
| "ms Eol p = (case p of (prev, s, g) \<Rightarrow> if s = [] \<or> hd s = NL then [p] else [])"
| "ms Bos p = (case p of (prev, s, g) \<Rightarrow> if prev = None then [p] else [])"
| "ms Eos p = (case p of (prev, s, g) \<Rightarrow> if s = [] \<or> s = [NL] then [p] else [])"
  by pat_completeness auto
termination
  by (relation "(\<lambda>(r, p). size r) <*mlex*> measure (\<lambda>(r, p). length (rest p))")
     (auto simp: mlex_prod_def wf_mlex)

text \<open>A literal string, \<open>r+\<close>, and the classes \<open>.\<close> with and without \<open>re.DOTALL\<close>.\<close>

fun lit :: "ustring \<Rightarrow> re" where
  "lit [] = Eps"
| "lit (c # cs) = Seq (Chr (\<lambda>x. x = c)) (lit cs)"

definition Plus :: "re \<Rightarrow> re" where
  "Plus r = Seq r (Star r)"

definition dot :: "uchar \<Rightarrow> bool" where
  "dot c = (c \<noteq> NL)"

definition dot_all :: "uchar \<Rightarrow> bool" where
  "dot_all c = True"

text \<open>A sequence of several patterns.\<close>

fun seqs :: "re list \<Rightarrow> re" where
  "seqs [] = Eps"
| "seqs [r] = r"
| "seqs (r # rs) = Seq r (seqs rs)"

text \<open>
  \<open>re.sub(pattern, repl, s)\<close>: scan from the left; at each position take the first match,
  append the replacement computed from its groups and go on after the match; where
  nothing matches copy one character. An empty match is replaced and the scan moves on
  by one character.
\<close>

function sub_from :: "re \<Rightarrow> (groups \<Rightarrow> ustring) \<Rightarrow> uchar option \<Rightarrow> ustring \<Rightarrow> ustring" where
  "sub_from r f prev s =
     (case ms r (prev, s, Map.empty) of
        [] \<Rightarrow> (case s of [] \<Rightarrow> [] | c # cs \<Rightarrow> c # sub_from r f (Some c) cs)
      | q # _ \<Rightarrow>
          (case q of (prev', s', g) \<Rightarrow>
             if length s' < length s then f g @ sub_from r f prev' s'
             else f g @ (case s of [] \<Rightarrow> [] | c # cs \<Rightarrow> c # sub_from r f (Some c) cs)))"
  by pat_completeness auto
termination
  by (relation "measure (\<lambda>(r, f, prev, s). length s)") auto

definition re_sub :: "re \<Rightarrow> (groups \<Rightarrow> ustring) \<Rightarrow> ustring \<Rightarrow> ustring" where
  "re_sub r f s = sub_from r f None s"

text \<open>\<open>m.group(n)\<close> where an unmatched group reads as the empty string.\<close>

definition grp :: "groups \<Rightarrow> nat \<Rightarrow> ustring" where
  "grp g n = (case g n of None \<Rightarrow> [] | Some x \<Rightarrow> x)"

text \<open>A replacement template such as \<open>\<^verbatim>\<open><li>\1</li>\<close>\<close>: text and group references.\<close>

datatype tpart = T string | G nat

fun expand :: "tpart list \<Rightarrow> groups \<Rightarrow> ustring" where
  "expand [] g = []"
| "expand (T s # ps) g = ustr s @ expand ps g"
| "expand (G n # ps) g = grp g n @ expand ps g"

text \<open>\<open>re.match\<close> and \<open>re.search\<close>, read as truth values.\<close>

definition re_match :: "re \<Rightarrow> ustring \<Rightarrow> bool" where
  "re_match r s = (ms r (None, s, Map.empty) \<noteq> [])"

fun search_from :: "re \<Rightarrow> uchar option \<Rightarrow> ustring \<Rightarrow> bool" where
  "search_from r prev [] = (ms r (prev, [], Map.empty) \<noteq> [])"
| "search_from r prev (c # cs) = (ms r (prev, c # cs, Map.empty) \<noteq> [] \<or> search_from r (Some c) cs)"

definition re_search :: "re \<Rightarrow> ustring \<Rightarrow> bool" where
  "re_search r s = search_from r None s"

section \<open>The Markdown converter of \<open>utils/generate_kindle.py\<close>\<close>

text \<open>
  \<open>create_anchor_id\<close>: remove tags \<open>\<^verbatim>\<open><[^>]+>\<close>\<close>, lower the case, remove
  \<open>\<^verbatim>\<open>[^\w\s-]\<close>\<close>, replace every run \<open>\<^verbatim>\<open>[-\s]+\<close>\<close> by one hyphen, strip hyphens at
  both ends.
\<close>

definition tag_re :: re where
  "tag_re = seqs [lit (ustr ''<''), Plus (Chr (\<lambda>c. c \<noteq> U CHR ''>'')), lit (ustr ''>'')]"

definition special_re :: "unicode \<Rightarrow> re" where
  "special_re db = Chr (\<lambda>c. \<not> (is_word db c \<or> is_space db c \<or> c = U CHR ''-''))"

definition hyphens_re :: "unicode \<Rightarrow> re" where
  "hyphens_re db = Plus (Chr (\<lambda>c. c = U CHR ''-'' \<or> is_space db c))"

definition create_anchor_id :: "unicode \<Rightarrow> ustring \<Rightarrow> ustring" where
  "create_anchor_id db text0 =
     (let text1 = re_sub tag_re (\<lambda>g. []) text0;
          text2 = lower db text1;
          text3 = re_sub (special_re db) (\<lambda>g. []) text2;
          text4 = re_sub (hyphens_re db) (\<lambda>g. ustr ''-'') text3
      in strip_chars (ustr ''-'') text4)"

definition escape_html :: "ustring \<Rightarrow> ustring" where
  "escape_html text0 =
     replace_chr (U CHR ''>'') (ustr ''&gt;'')
       (replace_chr (U CHR ''<'') (ustr ''&lt;'') (replace_chr (U CHR ''&'') (ustr ''&amp;'') text0))"

text \<open>\<open>wrap_list_items\<close>: an ordered list when \<open>\<^verbatim>\<open>\d+\.\s\<close>\<close> occurs in the matched text.\<close>

definition numbered_re :: "unicode \<Rightarrow> re" where
  "numbered_re db = seqs [Plus (Chr (is_digit db)), lit (ustr ''.''), Chr (is_space db)]"

definition wrap_list_items :: "unicode \<Rightarrow> groups \<Rightarrow> ustring" where
  "wrap_list_items db m =
     (let content = grp m 1
      in if re_search (numbered_re db) content then ustr ''<ol>'' @ content @ ustr ''</ol>''
         else ustr ''<ul>'' @ content @ ustr ''</ul>'')"

definition is_html_block :: "unicode \<Rightarrow> ustring \<Rightarrow> bool" where
  "is_html_block db text0 =
     list_ex (\<lambda>tag. startswith (strip db text0) (ustr tag))
       [''<div'', ''<section'', ''<article'', ''<header'', ''<footer'', ''<nav'', ''<aside'', ''<main'',
        ''<pre'', ''<blockquote'', ''<ul'', ''<ol'', ''<li'', ''<table'', ''<tr'', ''<td'', ''<th'']"

definition contains_block_elements :: "ustring \<Rightarrow> bool" where
  "contains_block_elements text0 =
     list_ex (\<lambda>tag. contains text0 (ustr tag))
       [''<h1'', ''<h2'', ''<h3'', ''<h4'', ''<h5'', ''<h6'', ''<div'', ''<section'', ''<pre'',
        ''<blockquote'', ''<ul'', ''<ol'', ''<table'']"

subsection \<open>Tables\<close>

text \<open>
  \<open>convert_tables\<close> appends strings to \<open>result\<close>. The model keeps, for each appended
  string, what it is: an opening or closing tag written by the function, a cell, or an
  input line copied unchanged. \<open>item_text\<close> gives the string the source appends.
\<close>

datatype item = Open_tag string | Close_tag string | Cell string ustring | Copied ustring

fun item_text :: "item \<Rightarrow> ustring" where
  "item_text (Open_tag n) = ustr ''<'' @ ustr n @ ustr ''>''"
| "item_text (Close_tag n) = ustr ''</'' @ ustr n @ ustr ''>''"
| "item_text (Cell n c) = ustr ''<'' @ ustr n @ ustr ''>'' @ c @ ustr ''</'' @ ustr n @ ustr ''>''"
| "item_text (Copied l) = l"

text \<open>The separator line \<open>\<^verbatim>\<open>^\|[-:\s|]+\|$\<close>\<close>, tested with \<open>re.match\<close>.\<close>

definition separator_re :: "unicode \<Rightarrow> re" where
  "separator_re db = seqs [Bos, lit (ustr ''|''),
     Plus (Chr (\<lambda>c. c = U CHR ''-'' \<or> c = U CHR '':'' \<or> is_space db c \<or> c = U CHR ''|'')),
     lit (ustr ''|''), Eos]"

definition is_table_line :: "unicode \<Rightarrow> ustring \<Rightarrow> bool" where
  "is_table_line db line =
     (contains line (ustr ''|'') \<and> startswith (strip db line) (ustr ''|'') \<and> endswith (strip db line) (ustr ''|''))"

text \<open>\<open>[cell.strip() for cell in line.strip().split('|')[1:-1]]\<close>\<close>

definition cells_of :: "unicode \<Rightarrow> ustring \<Rightarrow> ustring list" where
  "cells_of db line = map (strip db) (butlast (tl (split_chr (U CHR ''|'') (strip db line))))"

text \<open>
  The loop over the lines: the lines not yet read (the first is \<open>line\<close>, the second is
  \<open>lines[i + 1]\<close>), the flag \<open>in_table\<close> and the list \<open>result\<close>.
\<close>

fun table_loop :: "unicode \<Rightarrow> ustring list \<Rightarrow> bool \<Rightarrow> item list \<Rightarrow> item list" where
  "table_loop db [] in_table result =
     (if in_table then result @ [Close_tag ''tbody'', Close_tag ''table''] else result)"
| "table_loop db (line # lines) in_table result =
     (if is_table_line db line then
        (if \<not> in_table \<and> lines \<noteq> [] \<and> re_match (separator_re db) (strip db (hd lines)) then
           table_loop db lines True
             (result @ [Open_tag ''table'', Open_tag ''thead'', Open_tag ''tr'']
                @ map (Cell ''th'') (cells_of db line)
                @ [Close_tag ''tr'', Close_tag ''thead'', Open_tag ''tbody''])
         else
           (let result1 = (if \<not> in_table then result @ [Open_tag ''table'', Open_tag ''tbody''] else result)
            in if re_match (separator_re db) (strip db line) then table_loop db lines True result1
               else table_loop db lines True
                      (result1 @ [Open_tag ''tr''] @ map (Cell ''td'') (cells_of db line) @ [Close_tag ''tr''])))
      else
        table_loop db lines False
          ((if in_table then result @ [Close_tag ''tbody'', Close_tag ''table''] else result) @ [Copied line]))"

definition convert_tables_items :: "unicode \<Rightarrow> ustring \<Rightarrow> item list" where
  "convert_tables_items db html = table_loop db (split_chr NL html) False []"

definition convert_tables :: "unicode \<Rightarrow> ustring \<Rightarrow> ustring" where
  "convert_tables db html = join [NL] (map item_text (convert_tables_items db html))"

subsection \<open>The passes of \<open>simple_markdown_to_html\<close>\<close>

text \<open>The header patterns \<open>\<^verbatim>\<open>^# (.*?)$\<close>\<close> to \<open>\<^verbatim>\<open>^##### (.*?)$\<close>\<close> and their replacement.\<close>

definition header_re :: "string \<Rightarrow> re" where
  "header_re marks = seqs [Bol, lit (ustr (marks @ '' '')), Grp 1 (LStar (Chr dot)), Eol]"

definition header_repl :: "unicode \<Rightarrow> string \<Rightarrow> groups \<Rightarrow> ustring" where
  \<open>header_repl db h m =
     ustr ''<'' @ ustr h @ ustr '' id="'' @ create_anchor_id db (grp m 1) @ ustr ''">'' @ grp m 1
       @ ustr ''</'' @ ustr h @ ustr ''>''\<close>

text \<open>\<open>\<^verbatim>\<open>```(\w+)?\n(.*?)\n```\<close>\<close> under \<open>re.DOTALL\<close>.\<close>

definition code_block_re :: "unicode \<Rightarrow> re" where
  "code_block_re db = seqs [lit (ustr ''```''), Opt (Grp 1 (Plus (Chr (is_word db)))), lit [NL],
     Grp 2 (LStar (Chr dot_all)), lit [NL], lit (ustr ''```'')]"

definition code_block_repl :: "groups \<Rightarrow> ustring" where
  \<open>code_block_repl m =
     ustr ''<pre><code class="language-'' @ (if grp m 1 \<noteq> [] then grp m 1 else ustr ''text'') @ ustr ''">''
       @ escape_html (grp m 2) @ ustr ''</code></pre>''\<close>

definition inline_code_re :: re where
  "inline_code_re = seqs [lit (ustr ''`''), Grp 1 (Plus (Chr (\<lambda>c. c \<noteq> U CHR ''`''))), lit (ustr ''`'')]"

definition bold_italic_re :: re where
  "bold_italic_re = seqs [lit (ustr ''***''), Grp 1 (LStar (Chr dot)), lit (ustr ''***'')]"

definition bold_re :: re where
  "bold_re = seqs [lit (ustr ''**''), Grp 1 (LStar (Chr dot)), lit (ustr ''**'')]"

definition italic_re :: re where
  "italic_re = seqs [lit (ustr ''*''), Grp 1 (LStar (Chr dot)), lit (ustr ''*'')]"

text \<open>\<open>\<^verbatim>\<open>\[([^\]]+)\]\(([^)]+)\)\<close>\<close>\<close>

definition link_re :: re where
  "link_re = seqs [lit (ustr ''[''), Grp 1 (Plus (Chr (\<lambda>c. c \<noteq> U CHR '']''))), lit (ustr ''](''),
     Grp 2 (Plus (Chr (\<lambda>c. c \<noteq> U CHR '')''))), lit (ustr '')'')]"

text \<open>\<open>\<^verbatim>\<open>^(\d+)\. (.*?)$\<close>\<close> and \<open>\<^verbatim>\<open>^[-*+] (.*?)$\<close>\<close>\<close>

definition numbered_item_re :: "unicode \<Rightarrow> re" where
  "numbered_item_re db = seqs [Bol, Grp 1 (Plus (Chr (is_digit db))), lit (ustr ''. ''),
     Grp 2 (LStar (Chr dot)), Eol]"

definition bullet_item_re :: re where
  "bullet_item_re = seqs [Bol, Chr (\<lambda>c. c = U CHR ''-'' \<or> c = U CHR ''*'' \<or> c = U CHR ''+''), lit (ustr '' ''),
     Grp 1 (LStar (Chr dot)), Eol]"

text \<open>\<open>\<^verbatim>\<open>(<li>.*?</li>(?:\s*<li>.*?</li>)*)\<close>\<close> under \<open>re.DOTALL\<close>.\<close>

definition list_block_re :: "unicode \<Rightarrow> re" where
  "list_block_re db = Grp 1 (seqs [lit (ustr ''<li>''), LStar (Chr dot_all), lit (ustr ''</li>''),
     Star (seqs [Star (Chr (is_space db)), lit (ustr ''<li>''), LStar (Chr dot_all), lit (ustr ''</li>'')])])"

definition blockquote_re :: re where
  "blockquote_re = seqs [Bol, lit (ustr ''> ''), Grp 1 (LStar (Chr dot)), Eol]"

text \<open>\<open>\<^verbatim>\<open>^---+$\<close>\<close>\<close>

definition hr_re :: re where
  "hr_re = seqs [Bol, lit (ustr ''--''), Plus (Chr (\<lambda>c. c = U CHR ''-'')), Eol]"

text \<open>The paragraph loop body and the final join.\<close>

definition wrap_paragraph :: "unicode \<Rightarrow> ustring \<Rightarrow> ustring" where
  "wrap_paragraph db para0 =
     (let para = strip db para0
      in if para \<noteq> [] \<and> \<not> startswith para (ustr ''<'') \<and> \<not> startswith para (ustr ''<!--'')
            \<and> \<not> is_html_block db para
         then (if \<not> contains_block_elements para then ustr ''<p>'' @ para @ ustr ''</p>'' else para)
         else para)"

definition convert_paragraphs :: "unicode \<Rightarrow> ustring \<Rightarrow> ustring" where
  "convert_paragraphs db html = join [NL, NL] (map (wrap_paragraph db) (split_nlnl html))"

text \<open>The function itself: each line of the source is one binding, in the source's order.\<close>

definition simple_markdown_to_html :: "unicode \<Rightarrow> ustring \<Rightarrow> ustring" where
  \<open>simple_markdown_to_html db markdown_content =
     (let html = markdown_content;
          html = re_sub (header_re ''#'') (header_repl db ''h1'') html;
          html = re_sub (header_re ''##'') (header_repl db ''h2'') html;
          html = re_sub (header_re ''###'') (header_repl db ''h3'') html;
          html = re_sub (header_re ''####'') (header_repl db ''h4'') html;
          html = re_sub (header_re ''#####'') (header_repl db ''h5'') html;
          html = re_sub (code_block_re db) code_block_repl html;
          html = re_sub inline_code_re (expand [T ''<code>'', G 1, T ''</code>'']) html;
          html = re_sub bold_italic_re (expand [T ''<strong><em>'', G 1, T ''</em></strong>'']) html;
          html = re_sub bold_re (expand [T ''<strong>'', G 1, T ''</strong>'']) html;
          html = re_sub italic_re (expand [T ''<em>'', G 1, T ''</em>'']) html;
          html = re_sub link_re (expand [T ''<a href="'', G 2, T ''">'', G 1, T ''</a>'']) html;
          html = re_sub (numbered_item_re db) (expand [T ''<li>'', G 2, T ''</li>'']) html;
          html = re_sub bullet_item_re (expand [T ''<li>'', G 1, T ''</li>'']) html;
          html = re_sub (list_block_re db) (wrap_list_items db) html;
          html = re_sub blockquote_re (expand [T ''<blockquote>'', G 1, T ''</blockquote>'']) html;
          html = re_sub hr_re (\<lambda>m. ustr ''<hr>'') html;
          html = convert_tables db html
      in convert_paragraphs db html)\<close>

section \<open>The copy of the converter in \<open>utils/generate_html_flexible.py\<close>\<close>

text \<open>
  The file repeats the functions of the converter. Each function is modelled again,
  from this file's text; the pattern constants stand for the same pattern strings.
\<close>

definition create_anchor_id_uf :: "unicode \<Rightarrow> ustring \<Rightarrow> ustring" where
  "create_anchor_id_uf db text0 =
     (let text1 = re_sub tag_re (\<lambda>g. []) text0;
          text2 = lower db text1;
          text3 = re_sub (special_re db) (\<lambda>g. []) text2;
          text4 = re_sub (hyphens_re db) (\<lambda>g. ustr ''-'') text3
      in strip_chars (ustr ''-'') text4)"

definition escape_html_uf :: "ustring \<Rightarrow> ustring" where
  "escape_html_uf text0 =
     replace_chr (U CHR ''>'') (ustr ''&gt;'')
       (replace_chr (U CHR ''<'') (ustr ''&lt;'') (replace_chr (U CHR ''&'') (ustr ''&amp;'') text0))"

definition wrap_list_items_uf :: "unicode \<Rightarrow> groups \<Rightarrow> ustring" where
  "wrap_list_items_uf db m =
     (let content = grp m 1
      in if re_search (numbered_re db) content then ustr ''<ol>'' @ content @ ustr ''</ol>''
         else ustr ''<ul>'' @ content @ ustr ''</ul>'')"

definition is_html_block_uf :: "unicode \<Rightarrow> ustring \<Rightarrow> bool" where
  "is_html_block_uf db text0 =
     list_ex (\<lambda>tag. startswith (strip db text0) (ustr tag))
       [''<div'', ''<section'', ''<article'', ''<header'', ''<footer'', ''<nav'', ''<aside'', ''<main'',
        ''<pre'', ''<blockquote'', ''<ul'', ''<ol'', ''<li'', ''<table'', ''<tr'', ''<td'', ''<th'']"

definition contains_block_elements_uf :: "ustring \<Rightarrow> bool" where
  "contains_block_elements_uf text0 =
     list_ex (\<lambda>tag. contains text0 (ustr tag))
       [''<h1'', ''<h2'', ''<h3'', ''<h4'', ''<h5'', ''<h6'', ''<div'', ''<section'', ''<pre'',
        ''<blockquote'', ''<ul'', ''<ol'', ''<table'']"

fun table_loop_uf :: "unicode \<Rightarrow> ustring list \<Rightarrow> bool \<Rightarrow> item list \<Rightarrow> item list" where
  "table_loop_uf db [] in_table result =
     (if in_table then result @ [Close_tag ''tbody'', Close_tag ''table''] else result)"
| "table_loop_uf db (line # lines) in_table result =
     (if is_table_line db line then
        (if \<not> in_table \<and> lines \<noteq> [] \<and> re_match (separator_re db) (strip db (hd lines)) then
           table_loop_uf db lines True
             (result @ [Open_tag ''table'', Open_tag ''thead'', Open_tag ''tr'']
                @ map (Cell ''th'') (cells_of db line)
                @ [Close_tag ''tr'', Close_tag ''thead'', Open_tag ''tbody''])
         else
           (let result1 = (if \<not> in_table then result @ [Open_tag ''table'', Open_tag ''tbody''] else result)
            in if re_match (separator_re db) (strip db line) then table_loop_uf db lines True result1
               else table_loop_uf db lines True
                      (result1 @ [Open_tag ''tr''] @ map (Cell ''td'') (cells_of db line) @ [Close_tag ''tr''])))
      else
        table_loop_uf db lines False
          ((if in_table then result @ [Close_tag ''tbody'', Close_tag ''table''] else result) @ [Copied line]))"

definition convert_tables_items_uf :: "unicode \<Rightarrow> ustring \<Rightarrow> item list" where
  "convert_tables_items_uf db html = table_loop_uf db (split_chr NL html) False []"

definition convert_tables_uf :: "unicode \<Rightarrow> ustring \<Rightarrow> ustring" where
  "convert_tables_uf db html = join [NL] (map item_text (convert_tables_items_uf db html))"

definition header_repl_uf :: "unicode \<Rightarrow> string \<Rightarrow> groups \<Rightarrow> ustring" where
  \<open>header_repl_uf db h m =
     ustr ''<'' @ ustr h @ ustr '' id="'' @ create_anchor_id_uf db (grp m 1) @ ustr ''">'' @ grp m 1
       @ ustr ''</'' @ ustr h @ ustr ''>''\<close>

definition code_block_repl_uf :: "groups \<Rightarrow> ustring" where
  \<open>code_block_repl_uf m =
     ustr ''<pre><code class="language-'' @ (if grp m 1 \<noteq> [] then grp m 1 else ustr ''text'') @ ustr ''">''
       @ escape_html_uf (grp m 2) @ ustr ''</code></pre>''\<close>

definition wrap_paragraph_uf :: "unicode \<Rightarrow> ustring \<Rightarrow> ustring" where
  "wrap_paragraph_uf db para0 =
     (let para = strip db para0
      in if para \<noteq> [] \<and> \<not> startswith para (ustr ''<'') \<and> \<not> startswith para (ustr ''<!--'')
            \<and> \<not> is_html_block_uf db para
         then (if \<not> contains_block_elements_uf para then ustr ''<p>'' @ para @ ustr ''</p>'' else para)
         else para)"

definition convert_paragraphs_uf :: "unicode \<Rightarrow> ustring \<Rightarrow> ustring" where
  "convert_paragraphs_uf db html = join [NL, NL] (map (wrap_paragraph_uf db) (split_nlnl html))"

definition simple_markdown_to_html_uf :: "unicode \<Rightarrow> ustring \<Rightarrow> ustring" where
  \<open>simple_markdown_to_html_uf db markdown_content =
     (let html = markdown_content;
          html = re_sub (header_re ''#'') (header_repl_uf db ''h1'') html;
          html = re_sub (header_re ''##'') (header_repl_uf db ''h2'') html;
          html = re_sub (header_re ''###'') (header_repl_uf db ''h3'') html;
          html = re_sub (header_re ''####'') (header_repl_uf db ''h4'') html;
          html = re_sub (header_re ''#####'') (header_repl_uf db ''h5'') html;
          html = re_sub (code_block_re db) code_block_repl_uf html;
          html = re_sub inline_code_re (expand [T ''<code>'', G 1, T ''</code>'']) html;
          html = re_sub bold_italic_re (expand [T ''<strong><em>'', G 1, T ''</em></strong>'']) html;
          html = re_sub bold_re (expand [T ''<strong>'', G 1, T ''</strong>'']) html;
          html = re_sub italic_re (expand [T ''<em>'', G 1, T ''</em>'']) html;
          html = re_sub link_re (expand [T ''<a href="'', G 2, T ''">'', G 1, T ''</a>'']) html;
          html = re_sub (numbered_item_re db) (expand [T ''<li>'', G 2, T ''</li>'']) html;
          html = re_sub bullet_item_re (expand [T ''<li>'', G 1, T ''</li>'']) html;
          html = re_sub (list_block_re db) (wrap_list_items_uf db) html;
          html = re_sub blockquote_re (expand [T ''<blockquote>'', G 1, T ''</blockquote>'']) html;
          html = re_sub hr_re (\<lambda>m. ustr ''<hr>'') html;
          html = convert_tables_uf db html
      in convert_paragraphs_uf db html)\<close>

section \<open>The copy of the converter in \<open>src/generate_html_flexible.py\<close>\<close>

text \<open>
  The file repeats the functions of the converter. Each function is modelled again,
  from this file's text; the pattern constants stand for the same pattern strings.
\<close>

definition create_anchor_id_sf :: "unicode \<Rightarrow> ustring \<Rightarrow> ustring" where
  "create_anchor_id_sf db text0 =
     (let text1 = re_sub tag_re (\<lambda>g. []) text0;
          text2 = lower db text1;
          text3 = re_sub (special_re db) (\<lambda>g. []) text2;
          text4 = re_sub (hyphens_re db) (\<lambda>g. ustr ''-'') text3
      in strip_chars (ustr ''-'') text4)"

definition escape_html_sf :: "ustring \<Rightarrow> ustring" where
  "escape_html_sf text0 =
     replace_chr (U CHR ''>'') (ustr ''&gt;'')
       (replace_chr (U CHR ''<'') (ustr ''&lt;'') (replace_chr (U CHR ''&'') (ustr ''&amp;'') text0))"

definition wrap_list_items_sf :: "unicode \<Rightarrow> groups \<Rightarrow> ustring" where
  "wrap_list_items_sf db m =
     (let content = grp m 1
      in if re_search (numbered_re db) content then ustr ''<ol>'' @ content @ ustr ''</ol>''
         else ustr ''<ul>'' @ content @ ustr ''</ul>'')"

definition is_html_block_sf :: "unicode \<Rightarrow> ustring \<Rightarrow> bool" where
  "is_html_block_sf db text0 =
     list_ex (\<lambda>tag. startswith (strip db text0) (ustr tag))
       [''<div'', ''<section'', ''<article'', ''<header'', ''<footer'', ''<nav'', ''<aside'', ''<main'',
        ''<pre'', ''<blockquote'', ''<ul'', ''<ol'', ''<li'', ''<table'', ''<tr'', ''<td'', ''<th'']"

definition contains_block_elements_sf :: "ustring \<Rightarrow> bool" where
  "contains_block_elements_sf text0 =
     list_ex (\<lambda>tag. contains text0 (ustr tag))
       [''<h1'', ''<h2'', ''<h3'', ''<h4'', ''<h5'', ''<h6'', ''<div'', ''<section'', ''<pre'',
        ''<blockquote'', ''<ul'', ''<ol'', ''<table'']"

fun table_loop_sf :: "unicode \<Rightarrow> ustring list \<Rightarrow> bool \<Rightarrow> item list \<Rightarrow> item list" where
  "table_loop_sf db [] in_table result =
     (if in_table then result @ [Close_tag ''tbody'', Close_tag ''table''] else result)"
| "table_loop_sf db (line # lines) in_table result =
     (if is_table_line db line then
        (if \<not> in_table \<and> lines \<noteq> [] \<and> re_match (separator_re db) (strip db (hd lines)) then
           table_loop_sf db lines True
             (result @ [Open_tag ''table'', Open_tag ''thead'', Open_tag ''tr'']
                @ map (Cell ''th'') (cells_of db line)
                @ [Close_tag ''tr'', Close_tag ''thead'', Open_tag ''tbody''])
         else
           (let result1 = (if \<not> in_table then result @ [Open_tag ''table'', Open_tag ''tbody''] else result)
            in if re_match (separator_re db) (strip db line) then table_loop_sf db lines True result1
               else table_loop_sf db lines True
                      (result1 @ [Open_tag ''tr''] @ map (Cell ''td'') (cells_of db line) @ [Close_tag ''tr''])))
      else
        table_loop_sf db lines False
          ((if in_table then result @ [Close_tag ''tbody'', Close_tag ''table''] else result) @ [Copied line]))"

definition convert_tables_items_sf :: "unicode \<Rightarrow> ustring \<Rightarrow> item list" where
  "convert_tables_items_sf db html = table_loop_sf db (split_chr NL html) False []"

definition convert_tables_sf :: "unicode \<Rightarrow> ustring \<Rightarrow> ustring" where
  "convert_tables_sf db html = join [NL] (map item_text (convert_tables_items_sf db html))"

definition header_repl_sf :: "unicode \<Rightarrow> string \<Rightarrow> groups \<Rightarrow> ustring" where
  \<open>header_repl_sf db h m =
     ustr ''<'' @ ustr h @ ustr '' id="'' @ create_anchor_id_sf db (grp m 1) @ ustr ''">'' @ grp m 1
       @ ustr ''</'' @ ustr h @ ustr ''>''\<close>

definition code_block_repl_sf :: "groups \<Rightarrow> ustring" where
  \<open>code_block_repl_sf m =
     ustr ''<pre><code class="language-'' @ (if grp m 1 \<noteq> [] then grp m 1 else ustr ''text'') @ ustr ''">''
       @ escape_html_sf (grp m 2) @ ustr ''</code></pre>''\<close>

definition wrap_paragraph_sf :: "unicode \<Rightarrow> ustring \<Rightarrow> ustring" where
  "wrap_paragraph_sf db para0 =
     (let para = strip db para0
      in if para \<noteq> [] \<and> \<not> startswith para (ustr ''<'') \<and> \<not> startswith para (ustr ''<!--'')
            \<and> \<not> is_html_block_sf db para
         then (if \<not> contains_block_elements_sf para then ustr ''<p>'' @ para @ ustr ''</p>'' else para)
         else para)"

definition convert_paragraphs_sf :: "unicode \<Rightarrow> ustring \<Rightarrow> ustring" where
  "convert_paragraphs_sf db html = join [NL, NL] (map (wrap_paragraph_sf db) (split_nlnl html))"

definition simple_markdown_to_html_sf :: "unicode \<Rightarrow> ustring \<Rightarrow> ustring" where
  \<open>simple_markdown_to_html_sf db markdown_content =
     (let html = markdown_content;
          html = re_sub (header_re ''#'') (header_repl_sf db ''h1'') html;
          html = re_sub (header_re ''##'') (header_repl_sf db ''h2'') html;
          html = re_sub (header_re ''###'') (header_repl_sf db ''h3'') html;
          html = re_sub (header_re ''####'') (header_repl_sf db ''h4'') html;
          html = re_sub (header_re ''#####'') (header_repl_sf db ''h5'') html;
          html = re_sub (code_block_re db) code_block_repl_sf html;
          html = re_sub inline_code_re (expand [T ''<code>'', G 1, T ''</code>'']) html;
          html = re_sub bold_italic_re (expand [T ''<strong><em>'', G 1, T ''</em></strong>'']) html;
          html = re_sub bold_re (expand [T ''<strong>'', G 1, T ''</strong>'']) html;
          html = re_sub italic_re (expand [T ''<em>'', G 1, T ''</em>'']) html;
          html = re_sub link_re (expand [T ''<a href="'', G 2, T ''">'', G 1, T ''</a>'']) html;
          html = re_sub (numbered_item_re db) (expand [T ''<li>'', G 2, T ''</li>'']) html;
          html = re_sub bullet_item_re (expand [T ''<li>'', G 1, T ''</li>'']) html;
          html = re_sub (list_block_re db) (wrap_list_items_sf db) html;
          html = re_sub blockquote_re (expand [T ''<blockquote>'', G 1, T ''</blockquote>'']) html;
          html = re_sub hr_re (\<lambda>m. ustr ''<hr>'') html;
          html = convert_tables_sf db html
      in convert_paragraphs_sf db html)\<close>

section \<open>The converter of \<open>utils/generate_html.py\<close>\<close>

text \<open>
  This file has its own, shorter converter: four header levels without \<open>id\<close>, code
  blocks copied without escaping, bold and italic, \<open>\<^verbatim>\<open>^- (.*?)$\<close>\<close> list items each
  wrapped by \<open>\<^verbatim>\<open>(<li>.*?</li>)\<close>\<close>, and paragraphs.
\<close>

definition dash_item_re :: re where
  "dash_item_re = seqs [Bol, lit (ustr ''- ''), Grp 1 (LStar (Chr dot)), Eol]"

definition single_item_re :: re where
  "single_item_re = Grp 1 (seqs [lit (ustr ''<li>''), LStar (Chr dot_all), lit (ustr ''</li>'')])"

definition wrap_paragraph_gh :: "unicode \<Rightarrow> ustring \<Rightarrow> ustring" where
  "wrap_paragraph_gh db para0 =
     (let para = strip db para0
      in if para \<noteq> [] \<and> \<not> startswith para (ustr ''<'') \<and> \<not> startswith para (ustr ''<!--'')
         then ustr ''<p>'' @ para @ ustr ''</p>'' else para)"

definition simple_markdown_to_html_gh :: "unicode \<Rightarrow> ustring \<Rightarrow> ustring" where
  \<open>simple_markdown_to_html_gh db markdown_content =
     (let html = markdown_content;
          html = re_sub (header_re ''#'') (expand [T ''<h1>'', G 1, T ''</h1>'']) html;
          html = re_sub (header_re ''##'') (expand [T ''<h2>'', G 1, T ''</h2>'']) html;
          html = re_sub (header_re ''###'') (expand [T ''<h3>'', G 1, T ''</h3>'']) html;
          html = re_sub (header_re ''####'') (expand [T ''<h4>'', G 1, T ''</h4>'']) html;
          html = re_sub (code_block_re db) (expand [T ''<pre><code>'', G 2, T ''</code></pre>'']) html;
          html = re_sub inline_code_re (expand [T ''<code>'', G 1, T ''</code>'']) html;
          html = re_sub bold_re (expand [T ''<strong>'', G 1, T ''</strong>'']) html;
          html = re_sub italic_re (expand [T ''<em>'', G 1, T ''</em>'']) html;
          html = re_sub dash_item_re (expand [T ''<li>'', G 1, T ''</li>'']) html;
          html = re_sub single_item_re (expand [T ''<ul>'', G 1, T ''</ul>'']) html
      in join [NL, NL] (map (wrap_paragraph_gh db) (split_nlnl html)))\<close>

section \<open>Properties the claims speak of\<close>

subsection \<open>Balanced table tags\<close>

text \<open>
  The tags written by \<open>convert_tables\<close> are read from left to right with a stack of the
  open tag names: an opening tag is pushed, a closing tag must close the innermost open
  tag. Cells carry their own closing tag; copied input lines are not tags of the function.
\<close>

fun run_tags :: "string list \<Rightarrow> item list \<Rightarrow> string list option" where
  "run_tags st [] = Some st"
| "run_tags st (Open_tag n # xs) = run_tags (n # st) xs"
| "run_tags st (Close_tag n # xs) =
     (case st of [] \<Rightarrow> None | m # st' \<Rightarrow> if m = n then run_tags st' xs else None)"
| "run_tags st (Cell n c # xs) = run_tags st xs"
| "run_tags st (Copied l # xs) = run_tags st xs"

definition tags_balanced :: "item list \<Rightarrow> bool" where
  "tags_balanced xs = (run_tags [] xs = Some [])"

text \<open>
  The same reading for an output string. \<open>scan_tags\<close> collects what stands between each
  \<open>\<^verbatim>\<open><\<close>\<close> and the next \<open>\<^verbatim>\<open>>\<close>\<close>; a tag whose text begins with a slash closes the
  innermost open tag, any other tag opens one.
\<close>

fun scan_tags :: "ustring option \<Rightarrow> ustring \<Rightarrow> ustring list" where
  "scan_tags None [] = []"
| "scan_tags (Some b) [] = [b]"
| "scan_tags None (c # cs) = (if c = U CHR ''<'' then scan_tags (Some []) cs else scan_tags None cs)"
| "scan_tags (Some b) (c # cs) = (if c = U CHR ''>'' then b # scan_tags None cs else scan_tags (Some (b @ [c])) cs)"

fun check_tags :: "ustring list \<Rightarrow> ustring list \<Rightarrow> bool" where
  "check_tags st [] = (st = [])"
| "check_tags st (t # ts) =
     (if startswith t (ustr ''/'')
      then (case st of [] \<Rightarrow> False | m # st' \<Rightarrow> m = tl t \<and> check_tags st' ts)
      else check_tags (t # st) ts)"

definition html_balanced :: "ustring \<Rightarrow> bool" where
  "html_balanced s = check_tags [] (scan_tags None s)"

subsection \<open>Normalised anchor ids\<close>

text \<open>No two hyphens in a row.\<close>

fun single_hyphens :: "ustring \<Rightarrow> bool" where
  "single_hyphens (a # b # s) = (\<not> (a = U CHR ''-'' \<and> b = U CHR ''-'') \<and> single_hyphens (b # s))"
| "single_hyphens s = True"

text \<open>A hyphen, or a word character that \<open>lower()\<close> leaves unchanged.\<close>

definition slug_char :: "unicode \<Rightarrow> uchar \<Rightarrow> bool" where
  "slug_char db c = (c = U CHR ''-'' \<or> (is_word db c \<and> lower db [c] = [c]))"

definition normalized_slug :: "unicode \<Rightarrow> ustring \<Rightarrow> bool" where
  "normalized_slug db s = (list_all (slug_char db) s \<and> single_hyphens s
     \<and> \<not> startswith s (ustr ''-'') \<and> \<not> endswith s (ustr ''-''))"

subsection \<open>Text that no later pass rewrites\<close>

text \<open>
  A header text without a line break and without the characters that start inline
  markup or a tag: backquote, asterisk, opening bracket and \<open>\<^verbatim>\<open><\<close>\<close>.
\<close>

definition inert_text :: "ustring \<Rightarrow> bool" where
  "inert_text t = list_all (\<lambda>c. c \<notin> set (NL # ustr ''`*[<'')) t"

subsection \<open>Notions used in the proofs about the matcher\<close>

text \<open>The match that \<open>re\<close> reports: the first element of the list of ends, if any.\<close>

definition first_end :: "pos list \<Rightarrow> pos option" where
  "first_end ps = (case ps of [] \<Rightarrow> None | q # _ \<Rightarrow> Some q)"

text \<open>
  The ends of \<open>\<^verbatim>\<open>c*?\<close>\<close> and of \<open>\<^verbatim>\<open>c*\<close>\<close> for a character class \<open>c\<close>, each with the text
  consumed before it: shortest first for the lazy operator, longest first for the greedy.
\<close>

fun lazy_ends :: "(uchar \<Rightarrow> bool) \<Rightarrow> ustring \<Rightarrow> uchar option \<Rightarrow> ustring \<Rightarrow> (ustring \<times> uchar option \<times> ustring) list" where
  "lazy_ends f acc prev [] = [(acc, prev, [])]"
| "lazy_ends f acc prev (c # cs) =
     (acc, prev, c # cs) # (if f c then lazy_ends f (acc @ [c]) (Some c) cs else [])"

fun greedy_ends :: "(uchar \<Rightarrow> bool) \<Rightarrow> ustring \<Rightarrow> uchar option \<Rightarrow> ustring \<Rightarrow> (ustring \<times> uchar option \<times> ustring) list" where
  "greedy_ends f acc prev [] = [(acc, prev, [])]"
| "greedy_ends f acc prev (c # cs) =
     (if f c then greedy_ends f (acc @ [c]) (Some c) cs else []) @ [(acc, prev, c # cs)]"

text \<open>The character before the position reached after reading \<open>t\<close>.\<close>

definition prev_after :: "uchar option \<Rightarrow> ustring \<Rightarrow> uchar option" where
  "prev_after prev t = (if t = [] then prev else Some (last t))"

text \<open>A property of positions that holds at no position of a text.\<close>

fun nowhere :: "(uchar option \<Rightarrow> ustring \<Rightarrow> bool) \<Rightarrow> uchar option \<Rightarrow> ustring \<Rightarrow> bool" where
  "nowhere Q prev [] = (\<not> Q prev [])"
| "nowhere Q prev (c # cs) = (\<not> Q prev (c # cs) \<and> nowhere Q (Some c) cs)"

text \<open>A position at the beginning of a line.\<close>

definition at_bol :: "uchar option \<Rightarrow> bool" where
  "at_bol prev = (prev = None \<or> prev = Some NL)"

text \<open>What replacing every run of a character class by one hyphen computes.\<close>

function collapse :: "(uchar \<Rightarrow> bool) \<Rightarrow> ustring \<Rightarrow> ustring" where
  "collapse h [] = []"
| "collapse h (c # cs) = (if h c then U CHR ''-'' # collapse h (dropWhile h cs) else c # collapse h cs)"
  by pat_completeness auto
termination
  by (relation "measure (\<lambda>(h, s). length s)") (auto simp: length_dropWhile_le less_Suc_eq_le)


text \<open>The tags that the text of an item holds, and the items \<open>convert_tables\<close> builds from
  an input without \<open>\<^verbatim>\<open><\<close>\<close>.\<close>

fun tags_of :: "item \<Rightarrow> ustring list" where
  "tags_of (Open_tag n) = [ustr n]"
| "tags_of (Close_tag n) = [U CHR ''/'' # ustr n]"
| "tags_of (Cell n c) = [ustr n, U CHR ''/'' # ustr n]"
| "tags_of (Copied l) = []"

definition tag_name :: "string \<Rightarrow> bool" where
  "tag_name n = (n \<in> set [''table'', ''thead'', ''tbody'', ''tr'', ''th'', ''td''])"

fun item_ok :: "item \<Rightarrow> bool" where
  "item_ok (Open_tag n) = tag_name n"
| "item_ok (Close_tag n) = tag_name n"
| "item_ok (Cell n c) = (tag_name n \<and> U CHR ''<'' \<notin> set c)"
| "item_ok (Copied l) = (U CHR ''<'' \<notin> set l)"


text \<open>No character \<open>a\<close> directly followed by \<open>b\<close>.\<close>

fun no_pair :: "uchar \<Rightarrow> uchar \<Rightarrow> ustring \<Rightarrow> bool" where
  "no_pair a b (x # y # s) = (\<not> (x = a \<and> y = b) \<and> no_pair a b (y # s))"
| "no_pair a b s = True"

section \<open>Facts about the matcher and the substitution\<close>

declare sub_from.simps [simp del]

lemmas ms_star_unfold = ms.simps(5)
lemmas ms_lstar_unfold = ms.simps(6)

lemmas ms_grp_unfold = ms.simps(7)

declare ms.simps(5) [simp del]
declare ms.simps(6) [simp del]
declare ms.simps(7) [simp del]

lemma first_end_simps [simp]:
  "first_end [] = None" "first_end (q # qs) = Some q"
  by (simp_all add: first_end_def)

lemma first_end_append: "first_end (xs @ ys) = (case first_end xs of None \<Rightarrow> first_end ys | Some q \<Rightarrow> Some q)"
  by (cases xs) simp_all

lemma first_end_None [simp]: "first_end xs = None \<longleftrightarrow> xs = []"
  by (cases xs) simp_all

lemma sub_from_Nil_nomatch: "ms r (prev, [], Map.empty) = [] \<Longrightarrow> sub_from r f prev [] = []"
  by (simp add: sub_from.simps)

lemma sub_from_Cons_nomatch:
  "ms r (prev, c # cs, Map.empty) = [] \<Longrightarrow> sub_from r f prev (c # cs) = c # sub_from r f (Some c) cs"
  by (simp add: sub_from.simps)

lemma sub_from_match:
  "first_end (ms r (prev, s, Map.empty)) = Some (prev', s', g) \<Longrightarrow> length s' < length s \<Longrightarrow>
   sub_from r f prev s = f g @ sub_from r f prev' s'"
  by (subst sub_from.simps) (auto simp: first_end_def split: list.splits)

lemma sub_from_id: "\<not> search_from r prev s \<Longrightarrow> sub_from r f prev s = s"
  by (induction s arbitrary: prev) (simp_all add: sub_from_Nil_nomatch sub_from_Cons_nomatch)

lemma search_from_nowhere:
  "search_from r prev s = (\<not> nowhere (\<lambda>prev s. ms r (prev, s, Map.empty) \<noteq> []) prev s)"
  by (induction s arbitrary: prev) auto

lemma nowhere_mono: "nowhere Q prev s \<Longrightarrow> (\<And>prev s. Q' prev s \<Longrightarrow> Q prev s) \<Longrightarrow> nowhere Q' prev s"
  by (induction s arbitrary: prev) auto

lemma sub_from_id_nowhere:
  assumes "nowhere Q prev s" and "\<And>prev s. \<not> Q prev s \<Longrightarrow> ms r (prev, s, Map.empty) = []"
  shows "sub_from r f prev s = s"
proof -
  have "nowhere (\<lambda>prev s. ms r (prev, s, Map.empty) \<noteq> []) prev s"
    using assms(1) by (rule nowhere_mono) (use assms(2) in blast)
  then show ?thesis by (simp add: sub_from_id search_from_nowhere)
qed

lemma ms_lit:
  "ms (lit w) (prev, s, g) = (if startswith s w then [(prev_after prev w, drop (length w) s, g)] else [])"
proof (induction w arbitrary: prev s)
  case Nil
  then show ?case by (simp add: prev_after_def)
next
  case (Cons a w)
  show ?case
  proof (cases s)
    case Nil
    then show ?thesis by simp
  next
    case (Cons c cs)
    then show ?thesis using Cons.IH[of "Some c" cs] by (auto simp: prev_after_def)
  qed
qed

lemma ms_lstar_chr:
  "ms (LStar (Chr f)) (prev, s, g) = map (\<lambda>(a, pr, rs). (pr, rs, g)) (lazy_ends f acc prev s)"
  by (induction s arbitrary: prev acc) (auto simp: rest_def ms_lstar_unfold)

lemma ms_star_chr:
  "ms (Star (Chr f)) (prev, s, g) = map (\<lambda>(a, pr, rs). (pr, rs, g)) (greedy_ends f acc prev s)"
  by (induction s arbitrary: prev acc) (auto simp: rest_def ms_star_unfold)

lemma lazy_ends_consumed:
  "(a, pr, rs) \<in> set (lazy_ends f acc prev s) \<Longrightarrow> \<exists>t. a = acc @ t \<and> s = t @ rs"
proof (induction s arbitrary: prev acc)
  case Nil
  then show ?case by simp
next
  case (Cons c cs)
  from Cons.prems consider "(a, pr, rs) = (acc, prev, c # cs)"
    | "f c" "(a, pr, rs) \<in> set (lazy_ends f (acc @ [c]) (Some c) cs)"
    by (auto split: if_splits)
  then show ?case
  proof cases
    case 1
    then show ?thesis by simp
  next
    case 2
    from Cons.IH[OF 2(2)] obtain t where "a = (acc @ [c]) @ t" "cs = t @ rs" by blast
    then show ?thesis by (intro exI[of _ "c # t"]) simp
  qed
qed

lemma greedy_ends_consumed:
  "(a, pr, rs) \<in> set (greedy_ends f acc prev s) \<Longrightarrow> \<exists>t. a = acc @ t \<and> s = t @ rs"
proof (induction s arbitrary: prev acc)
  case Nil
  then show ?case by simp
next
  case (Cons c cs)
  from Cons.prems consider "(a, pr, rs) = (acc, prev, c # cs)"
    | "f c" "(a, pr, rs) \<in> set (greedy_ends f (acc @ [c]) (Some c) cs)"
    by (auto split: if_splits)
  then show ?case
  proof cases
    case 1
    then show ?thesis by simp
  next
    case 2
    from Cons.IH[OF 2(2)] obtain t where "a = (acc @ [c]) @ t" "cs = t @ rs" by blast
    then show ?thesis by (intro exI[of _ "c # t"]) simp
  qed
qed

lemma ms_grp_lstar_chr:
  "ms (Grp n (LStar (Chr f))) (prev, s, g) = map (\<lambda>(a, pr, rs). (pr, rs, g(n \<mapsto> a))) (lazy_ends f [] prev s)"
proof -
  have "map (\<lambda>q. case q of (prev', s', g') \<Rightarrow> (prev', s', g'(n \<mapsto> take (length s - length s') s)))
          (map (\<lambda>(a, pr, rs). (pr, rs, g)) (lazy_ends f [] prev s))
        = map (\<lambda>(a, pr, rs). (pr, rs, g(n \<mapsto> a))) (lazy_ends f [] prev s)"
    by (auto dest!: lazy_ends_consumed)
  then show ?thesis by (simp add: ms_grp_unfold ms_lstar_chr[where acc="[]"] rest_def)
qed

lemma lazy_ends_run:
  assumes "\<And>t1 c t2. t = t1 @ c # t2 \<Longrightarrow> f c \<and> F (acc @ t1, prev_after prev t1, c # t2 @ s) = []"
  shows "concat (map F (lazy_ends f acc prev (t @ s)))
         = concat (map F (lazy_ends f (acc @ t) (prev_after prev t) s))"
  using assms
proof (induction t arbitrary: acc prev)
  case Nil
  then show ?case by (simp add: prev_after_def)
next
  case (Cons c t)
  from Cons.prems[of "[]" c t] have c: "f c" and F0: "F (acc, prev, c # t @ s) = []"
    by (simp_all add: prev_after_def)
  have "concat (map F (lazy_ends f (acc @ [c]) (Some c) (t @ s)))
        = concat (map F (lazy_ends f ((acc @ [c]) @ t) (prev_after (Some c) t) s))"
  proof (rule Cons.IH)
    fix t1 d t2 assume "t = t1 @ d # t2"
    with Cons.prems[of "c # t1" d t2]
    show "f d \<and> F ((acc @ [c]) @ t1, prev_after (Some c) t1, d # t2 @ s) = []"
      by (cases "t1 = []") (simp_all add: prev_after_def)
  qed
  with c F0 show ?case by (simp add: prev_after_def)
qed


lemma greedy_ends_hd:
  "greedy_ends f acc prev s \<noteq> [] \<and>
   hd (greedy_ends f acc prev s) = (acc @ takeWhile f s, prev_after prev (takeWhile f s), dropWhile f s)"
proof (induction s arbitrary: acc prev)
  case Nil
  then show ?case by (simp add: prev_after_def)
next
  case (Cons c s)
  then show ?case by (auto simp: prev_after_def)
qed

lemma first_end_hd: "xs \<noteq> [] \<Longrightarrow> first_end xs = Some (hd xs)"
  by (cases xs) simp_all

lemma first_end_concat_map_Cons:
  "first_end (concat (map F (x # xs))) = (case first_end (F x) of None \<Rightarrow> first_end (concat (map F xs)) | Some q \<Rightarrow> Some q)"
  by (simp add: first_end_append)

lemma ms_plus_chr:
  "ms (Plus (Chr f)) (prev, s, g) =
     (case s of [] \<Rightarrow> [] | c # cs \<Rightarrow>
        if f c then map (\<lambda>(a, pr, rs). (pr, rs, g)) (greedy_ends f [c] (Some c) cs) else [])"
  by (cases s) (simp_all add: Plus_def ms_star_chr[where acc="[c]" for c])

lemma ms_grp_plus_chr:
  "ms (Grp n (Plus (Chr f))) (prev, s, g) =
     (case s of [] \<Rightarrow> [] | c # cs \<Rightarrow>
        if f c then map (\<lambda>(a, pr, rs). (pr, rs, g(n \<mapsto> a))) (greedy_ends f [c] (Some c) cs) else [])"
proof (cases s)
  case Nil
  then show ?thesis by (simp add: Plus_def ms_grp_unfold)
next
  case (Cons c cs)
  show ?thesis
  proof (cases "f c")
    case False
    with Cons show ?thesis by (simp add: Plus_def ms_grp_unfold)
  next
    case True
    have "map (\<lambda>q. case q of (prev', s', g') \<Rightarrow> (prev', s', g'(n \<mapsto> take (length (c # cs) - length s') (c # cs))))
            (map (\<lambda>(a, pr, rs). (pr, rs, g)) (greedy_ends f [c] (Some c) cs))
          = map (\<lambda>(a, pr, rs). (pr, rs, g(n \<mapsto> a))) (greedy_ends f [c] (Some c) cs)"
      by (auto dest!: greedy_ends_consumed)
    with True Cons show ?thesis
      by (simp add: ms_grp_unfold ms_plus_chr rest_def)
  qed
qed

text \<open>substitution of a single character class by the empty string is a filter\<close>

lemma sub_from_chr_delete: "sub_from (Chr p) (\<lambda>g. []) prev s = filter (\<lambda>c. \<not> p c) s"
proof (induction s arbitrary: prev)
  case Nil
  then show ?case by (simp add: sub_from_Nil_nomatch)
next
  case (Cons c s)
  show ?case
  proof (cases "p c")
    case True
    then have "first_end (ms (Chr p) (prev, c # s, Map.empty)) = Some (Some c, s, Map.empty)" by simp
    from sub_from_match[OF this] Cons True show ?thesis by simp
  next
    case False
    then show ?thesis using Cons by (simp add: sub_from_Cons_nomatch)
  qed
qed

section \<open>The copies of the converter\<close>

lemma create_anchor_id_uf_eq: "create_anchor_id_uf = create_anchor_id"
  by (rule ext, rule ext) (simp add: create_anchor_id_uf_def create_anchor_id_def)

lemma create_anchor_id_sf_eq: "create_anchor_id_sf = create_anchor_id"
  by (rule ext, rule ext) (simp add: create_anchor_id_sf_def create_anchor_id_def)

lemma escape_html_uf_eq: "escape_html_uf = escape_html"
  by (rule ext) (simp add: escape_html_uf_def escape_html_def)

lemma escape_html_sf_eq: "escape_html_sf = escape_html"
  by (rule ext) (simp add: escape_html_sf_def escape_html_def)

lemma wrap_list_items_uf_eq: "wrap_list_items_uf = wrap_list_items"
  by (rule ext, rule ext) (simp add: wrap_list_items_uf_def wrap_list_items_def)

lemma wrap_list_items_sf_eq: "wrap_list_items_sf = wrap_list_items"
  by (rule ext, rule ext) (simp add: wrap_list_items_sf_def wrap_list_items_def)

lemma is_html_block_uf_eq: "is_html_block_uf = is_html_block"
  by (rule ext, rule ext) (simp only: is_html_block_uf_def is_html_block_def)

lemma is_html_block_sf_eq: "is_html_block_sf = is_html_block"
  by (rule ext, rule ext) (simp only: is_html_block_sf_def is_html_block_def)

lemma contains_block_elements_uf_eq: "contains_block_elements_uf = contains_block_elements"
  by (rule ext) (simp only: contains_block_elements_uf_def contains_block_elements_def)

lemma contains_block_elements_sf_eq: "contains_block_elements_sf = contains_block_elements"
  by (rule ext) (simp only: contains_block_elements_sf_def contains_block_elements_def)

lemma table_loop_uf_eq: "table_loop_uf db lines in_table result = table_loop db lines in_table result"
  by (induction lines arbitrary: in_table result) (simp_all add: Let_def)

lemma table_loop_sf_eq: "table_loop_sf db lines in_table result = table_loop db lines in_table result"
  by (induction lines arbitrary: in_table result) (simp_all add: Let_def)

lemma convert_tables_uf_eq: "convert_tables_uf = convert_tables"
  by (rule ext, rule ext)
     (simp add: convert_tables_uf_def convert_tables_def convert_tables_items_uf_def
        convert_tables_items_def table_loop_uf_eq)

lemma convert_tables_sf_eq: "convert_tables_sf = convert_tables"
  by (rule ext, rule ext)
     (simp add: convert_tables_sf_def convert_tables_def convert_tables_items_sf_def
        convert_tables_items_def table_loop_sf_eq)

lemma header_repl_uf_eq: "header_repl_uf = header_repl"
  by (rule ext, rule ext, rule ext) (simp add: header_repl_uf_def header_repl_def create_anchor_id_uf_eq)

lemma header_repl_sf_eq: "header_repl_sf = header_repl"
  by (rule ext, rule ext, rule ext) (simp add: header_repl_sf_def header_repl_def create_anchor_id_sf_eq)

lemma code_block_repl_uf_eq: "code_block_repl_uf = code_block_repl"
  by (rule ext) (simp add: code_block_repl_uf_def code_block_repl_def escape_html_uf_eq)

lemma code_block_repl_sf_eq: "code_block_repl_sf = code_block_repl"
  by (rule ext) (simp add: code_block_repl_sf_def code_block_repl_def escape_html_sf_eq)

lemma wrap_paragraph_uf_eq: "wrap_paragraph_uf = wrap_paragraph"
  unfolding wrap_paragraph_uf_def wrap_paragraph_def is_html_block_uf_eq
    contains_block_elements_uf_eq by (rule ext, rule ext) (rule refl)

lemma convert_paragraphs_uf_eq: "convert_paragraphs_uf = convert_paragraphs"
  unfolding convert_paragraphs_uf_def convert_paragraphs_def wrap_paragraph_uf_eq
  by (rule ext, rule ext) (rule refl)

lemma wrap_paragraph_sf_eq: "wrap_paragraph_sf = wrap_paragraph"
  unfolding wrap_paragraph_sf_def wrap_paragraph_def is_html_block_sf_eq
    contains_block_elements_sf_eq by (rule ext, rule ext) (rule refl)

lemma convert_paragraphs_sf_eq: "convert_paragraphs_sf = convert_paragraphs"
  unfolding convert_paragraphs_sf_def convert_paragraphs_def wrap_paragraph_sf_eq
  by (rule ext, rule ext) (rule refl)

lemma simple_markdown_to_html_uf_eq: "simple_markdown_to_html_uf db s = simple_markdown_to_html db s"
  unfolding simple_markdown_to_html_uf_def simple_markdown_to_html_def
    header_repl_uf_eq code_block_repl_uf_eq wrap_list_items_uf_eq convert_tables_uf_eq
    convert_paragraphs_uf_eq ..

lemma simple_markdown_to_html_sf_eq: "simple_markdown_to_html_sf db s = simple_markdown_to_html db s"
  unfolding simple_markdown_to_html_sf_def simple_markdown_to_html_def
    header_repl_sf_eq code_block_repl_sf_eq wrap_list_items_sf_eq convert_tables_sf_eq
    convert_paragraphs_sf_eq ..

text \<open>
  Claim C4, as stated: the four copies return the same string on every input. It fails:
  the converter of \<open>utils/generate_html.py\<close> writes headers without an \<open>id\<close>.
\<close>

theorem four_copies_counterexample:
  "simple_markdown_to_html_gh sample_tables (ustr ''# a'') \<noteq> simple_markdown_to_html sample_tables (ustr ''# a'')"
  by code_simp

text \<open>
  Claim C4, amended: the three copies in \<open>utils/generate_kindle.py\<close>,
  \<open>utils/generate_html_flexible.py\<close> and \<open>src/generate_html_flexible.py\<close> return the
  same output string for every input; the fourth file, \<open>utils/generate_html.py\<close>,
  has a different, shorter converter.
\<close>

theorem three_copies_agree:
  "simple_markdown_to_html_uf db s = simple_markdown_to_html db s
   \<and> simple_markdown_to_html_sf db s = simple_markdown_to_html db s"
  by (simp add: simple_markdown_to_html_uf_eq simple_markdown_to_html_sf_eq)

theorem three_copies_agree_witness:
  \<open>simple_markdown_to_html_uf sample_tables (ustr ''## b'') = ustr ''<h2 id="b">b</h2>''
   \<and> simple_markdown_to_html_sf sample_tables (ustr ''## b'') = ustr ''<h2 id="b">b</h2>''\<close>
proof -
  have \<open>simple_markdown_to_html sample_tables (ustr ''## b'') = ustr ''<h2 id="b">b</h2>''\<close> by code_simp
  with three_copies_agree [of sample_tables "ustr ''## b''"] show ?thesis by simp
qed

section \<open>Anchor ids\<close>

declare ustr_def [simp]

lemma sub_from_plus_collapse: "sub_from (Plus (Chr h)) (\<lambda>g. ustr ''-'') prev s = collapse h s"
proof (induction h s arbitrary: prev rule: collapse.induct)
  case (1 h)
  then show ?case by (simp add: sub_from_Nil_nomatch ms_plus_chr)
next
  case (2 h c cs)
  show ?case
  proof (cases "h c")
    case True
    have "first_end (ms (Plus (Chr h)) (prev, c # cs, Map.empty))
          = Some (prev_after (Some c) (takeWhile h cs), dropWhile h cs, Map.empty)"
      using True greedy_ends_hd[of h "[c]" "Some c" cs]
      by (simp add: ms_plus_chr first_end_hd hd_map)
    from sub_from_match[OF this, of "\<lambda>g. ustr ''-''"] have
      "sub_from (Plus (Chr h)) (\<lambda>g. ustr ''-'') prev (c # cs)
       = ustr ''-'' @ sub_from (Plus (Chr h)) (\<lambda>g. ustr ''-'') (prev_after (Some c) (takeWhile h cs)) (dropWhile h cs)"
      by (simp add: length_dropWhile_le less_Suc_eq_le)
    with 2(1)[OF True] True show ?thesis by simp
  next
    case False
    then have "ms (Plus (Chr h)) (prev, c # cs, Map.empty) = []" by (simp add: ms_plus_chr)
    from sub_from_Cons_nomatch[OF this] 2(2)[OF False] False show ?thesis by simp
  qed
qed

subsection \<open>Characters\<close>

lemma pt_space: "python_tables db \<Longrightarrow> c < 128 \<Longrightarrow> is_space db c = (9 \<le> c \<and> c \<le> 13 \<or> 28 \<le> c \<and> c \<le> 32)"
  unfolding python_tables_def by blast

lemma pt_digit: "python_tables db \<Longrightarrow> c < 128 \<Longrightarrow> is_digit db c = (48 \<le> c \<and> c \<le> 57)"
  unfolding python_tables_def by blast

lemma pt_word:
  "python_tables db \<Longrightarrow> c < 128 \<Longrightarrow>
   is_word db c = (48 \<le> c \<and> c \<le> 57 \<or> 65 \<le> c \<and> c \<le> 90 \<or> c = 95 \<or> 97 \<le> c \<and> c \<le> 122)"
  unfolding python_tables_def by blast

lemma is_word_not_space: "python_tables db \<Longrightarrow> is_word db c \<Longrightarrow> \<not> is_space db c"
  unfolding python_tables_def by blast

lemma pt_lower_ascii:
  "python_tables db \<Longrightarrow> c < 128 \<Longrightarrow> lower db [c] = [if 65 \<le> c \<and> c \<le> 90 then c + 32 else c]"
  unfolding python_tables_def by blast

lemma pt_lower_closed: "python_tables db \<Longrightarrow> c \<in> set (lower db s) \<Longrightarrow> lower db [c] = [c]"
  unfolding python_tables_def by blast

lemma pt_lower_fixed: "python_tables db \<Longrightarrow> (\<And>c. c \<in> set s \<Longrightarrow> lower db [c] = [c]) \<Longrightarrow> lower db s = s"
  unfolding python_tables_def by blast

lemma is_word_not_hyphen: "python_tables db \<Longrightarrow> is_word db c \<Longrightarrow> c \<noteq> U CHR ''-''"
  using pt_word[of db 45] by auto

lemma lower_hyphen: "python_tables db \<Longrightarrow> lower db [U CHR ''-''] = [U CHR ''-'']"
  using pt_lower_ascii[of db 45] by simp

lemma slug_char_lower: "python_tables db \<Longrightarrow> slug_char db c \<Longrightarrow> lower db [c] = [c]"
  using lower_hyphen[of db] by (auto simp: slug_char_def)

lemma slug_char_word_or_hyphen: "slug_char db c \<Longrightarrow> is_word db c \<or> c = U CHR ''-''"
  by (auto simp: slug_char_def)

subsection \<open>strip\<close>

lemma rev_dropWhile_split: "u = rev (dropWhile p (rev u)) @ rev (takeWhile p (rev u))"
proof -
  have "rev (takeWhile p (rev u) @ dropWhile p (rev u)) = u" by simp
  then show ?thesis unfolding rev_append by simp
qed

lemma strip_by_decomp: "\<exists>a b. s = a @ strip_by p s @ b"
proof -
  define u where "u = dropWhile p s"
  have "u = rev (dropWhile p (rev u)) @ rev (takeWhile p (rev u))" by (rule rev_dropWhile_split)
  moreover have "s = takeWhile p s @ u" by (simp add: u_def)
  ultimately show ?thesis unfolding strip_by_def u_def[symmetric] by metis
qed

lemma set_strip_by: "set (strip_by p s) \<subseteq> set s"
  using strip_by_decomp[of s p] by (metis Un_iff set_append subsetI)

lemma strip_by_hd: "strip_by p s \<noteq> [] \<Longrightarrow> \<not> p (hd (strip_by p s))"
proof -
  assume ne: "strip_by p s \<noteq> []"
  define u where "u = dropWhile p s"
  have r: "strip_by p s = rev (dropWhile p (rev u))" by (simp add: strip_by_def u_def)
  have "u = strip_by p s @ rev (takeWhile p (rev u))"
    unfolding r by (rule rev_dropWhile_split)
  with ne have "hd (strip_by p s) = hd u" by (metis hd_append2)
  moreover have "u \<noteq> []" using ne r by auto
  then have "\<not> p (hd u)" unfolding u_def by (rule hd_dropWhile)
  ultimately show ?thesis by simp
qed

lemma strip_by_last: "strip_by p s \<noteq> [] \<Longrightarrow> \<not> p (last (strip_by p s))"
proof -
  assume ne: "strip_by p s \<noteq> []"
  define v where "v = dropWhile p (rev (dropWhile p s))"
  have r: "strip_by p s = rev v" by (simp add: strip_by_def v_def)
  with ne have "v \<noteq> []" by simp
  then have "\<not> p (hd v)" unfolding v_def by (rule hd_dropWhile)
  moreover have "last (rev v) = hd v" using \<open>v \<noteq> []\<close> by (simp add: last_rev)
  ultimately show ?thesis by (simp add: r)
qed

lemma strip_by_id: "s = [] \<or> (\<not> p (hd s) \<and> \<not> p (last s)) \<Longrightarrow> strip_by p s = s"
proof (cases s)
  case Nil
  then show ?thesis by (simp add: strip_by_def)
next
  case (Cons c cs)
  assume "s = [] \<or> (\<not> p (hd s) \<and> \<not> p (last s))"
  with Cons have h: "\<not> p c" and l: "\<not> p (last s)" by auto
  have "dropWhile p s = s" using h Cons by simp
  moreover have "dropWhile p (rev s) = rev s"
    using l Cons by (cases "rev s") (auto simp: hd_rev[symmetric] dest: arg_cong[where f=hd])
  ultimately show ?thesis by (simp add: strip_by_def)
qed

subsection \<open>single hyphens\<close>

lemma single_hyphens_Cons:
  "single_hyphens (a # s) = ((s = [] \<or> \<not> (a = U CHR ''-'' \<and> hd s = U CHR ''-'')) \<and> single_hyphens s)"
  by (cases s) auto

lemma single_hyphens_append: "single_hyphens (xs @ ys) \<Longrightarrow> single_hyphens xs \<and> single_hyphens ys"
proof (induction xs)
  case Nil
  then show ?case by simp
next
  case (Cons a xs)
  then show ?case by (cases xs; cases ys) (auto simp: single_hyphens_Cons)
qed

lemma single_hyphens_strip_by: "single_hyphens s \<Longrightarrow> single_hyphens (strip_by p s)"
proof -
  assume s: "single_hyphens s"
  obtain a b where "s = a @ strip_by p s @ b" using strip_by_decomp by blast
  with s have "single_hyphens (a @ strip_by p s @ b)" by simp
  then show ?thesis by (blast dest: single_hyphens_append)
qed

lemma collapse_set: "set (collapse h s) \<subseteq> insert (U CHR ''-'') {c \<in> set s. \<not> h c}"
proof (induction h s rule: collapse.induct)
  case (1 h)
  then show ?case by simp
next
  case (2 h c cs)
  show ?case
  proof (cases "h c")
    case True
    from 2(1)[OF True] have "set (collapse h (dropWhile h cs)) \<subseteq> insert (U CHR ''-'') {c \<in> set cs. \<not> h c}"
      by (auto dest: set_dropWhileD)
    with True show ?thesis by auto
  next
    case False
    with 2(2)[OF False] show ?thesis by auto
  qed
qed

lemma collapse_hd: "h (U CHR ''-'') \<Longrightarrow> s = [] \<or> \<not> h (hd s) \<Longrightarrow> collapse h s = [] \<or> hd (collapse h s) \<noteq> U CHR ''-''"
  by (cases s) auto

lemma collapse_single: "h (U CHR ''-'') \<Longrightarrow> single_hyphens (collapse h s)"
proof (induction h s rule: collapse.induct)
  case (1 h)
  then show ?case by simp
next
  case (2 h c cs)
  show ?case
  proof (cases "h c")
    case True
    have "dropWhile h cs = [] \<or> \<not> h (hd (dropWhile h cs))" using hd_dropWhile[of h cs] by blast
    from collapse_hd[OF 2(3) this] 2(1)[OF True 2(3)] True
    show ?thesis by (auto simp: single_hyphens_Cons)
  next
    case False
    with 2(3) have "c \<noteq> U CHR ''-''" by auto
    with 2(2)[OF False 2(3)] False show ?thesis by (auto simp: single_hyphens_Cons)
  qed
qed

lemma collapse_id:
  "python_tables db \<Longrightarrow> list_all (slug_char db) s \<Longrightarrow> single_hyphens s \<Longrightarrow>
   collapse (\<lambda>c. c = U CHR ''-'' \<or> is_space db c) s = s"
proof (induction s)
  case Nil
  then show ?case by simp
next
  case (Cons c cs)
  let ?h = "\<lambda>c. c = U CHR ''-'' \<or> is_space db c"
  from Cons.prems have IH: "collapse ?h cs = cs"
    by (intro Cons.IH) (auto simp: single_hyphens_Cons)
  show ?case
  proof (cases "c = U CHR ''-''")
    case True
    have "dropWhile ?h cs = cs"
    proof (cases cs)
      case Nil then show ?thesis by simp
    next
      case (Cons d ds)
      with Cons.prems True have "d \<noteq> U CHR ''-''" "slug_char db d" by (auto simp: single_hyphens_Cons)
      then have "\<not> ?h d" using Cons.prems(1) by (auto simp: slug_char_def is_word_not_space)
      with Cons show ?thesis by simp
    qed
    with True IH show ?thesis by simp
  next
    case False
    with Cons.prems have "is_word db c" by (auto simp: slug_char_def)
    with False have "\<not> ?h c" using Cons.prems(1) by (auto simp: is_word_not_space)
    with IH show ?thesis by simp
  qed
qed

lemma nowhere_hd: "(\<And>c. c \<in> set s \<Longrightarrow> \<not> p c) \<Longrightarrow> nowhere (\<lambda>prev s. s \<noteq> [] \<and> p (hd s)) prev s"
  by (induction s arbitrary: prev) auto

lemma startswith_single: "startswith s [c] = (s \<noteq> [] \<and> hd s = c)"
  by (cases s) auto

lemma endswith_single: "endswith s [c] = (s \<noteq> [] \<and> last s = c)"
  by (cases "rev s") (auto simp: endswith_def startswith_single last_rev[symmetric] simp del: last_rev dest: arg_cong[where f=rev])

lemma tag_re_blocked: "s = [] \<or> hd s \<noteq> U CHR ''<'' \<Longrightarrow> ms tag_re (prev, s, g) = []"
  by (cases s) (auto simp: tag_re_def)

lemma re_sub_special:
  "re_sub (special_re db) (\<lambda>g. []) s = filter (\<lambda>c. is_word db c \<or> is_space db c \<or> c = U CHR ''-'') s"
  by (simp add: re_sub_def special_re_def sub_from_chr_delete)

lemma re_sub_hyphens:
  "re_sub (hyphens_re db) (\<lambda>g. ustr ''-'') s = collapse (\<lambda>c. c = U CHR ''-'' \<or> is_space db c) s"
  unfolding re_sub_def hyphens_re_def by (rule sub_from_plus_collapse)

lemma create_anchor_id_eq:
  "create_anchor_id db s = strip_by (\<lambda>c. c = U CHR ''-'')
     (collapse (\<lambda>c. c = U CHR ''-'' \<or> is_space db c)
        (filter (\<lambda>c. is_word db c \<or> is_space db c \<or> c = U CHR ''-'') (lower db (re_sub tag_re (\<lambda>g. []) s))))"
  unfolding create_anchor_id_def Let_def re_sub_special re_sub_hyphens strip_chars_def by simp

lemma create_anchor_id_normalized:
  assumes pt: "python_tables db"
  shows "normalized_slug db (create_anchor_id db s)"
proof -
  let ?h = "\<lambda>c. c = U CHR ''-'' \<or> is_space db c"
  let ?k = "\<lambda>c. is_word db c \<or> is_space db c \<or> c = U CHR ''-''"
  define t2 where "t2 = lower db (re_sub tag_re (\<lambda>g. []) s)"
  define t4 where "t4 = collapse ?h (filter ?k t2)"
  define r where "r = strip_by (\<lambda>c. c = U CHR ''-'') t4"
  have r: "create_anchor_id db s = r" by (simp add: create_anchor_id_eq r_def t4_def t2_def)
  have low: "lower db [c] = [c]" if "c \<in> set t2" for c
    using that pt_lower_closed[OF pt] by (auto simp: t2_def)
  have t4: "slug_char db c" if "c \<in> set t4" for c
  proof -
    from that collapse_set[of ?h "filter ?k t2"]
    have "c = U CHR ''-'' \<or> (c \<in> set t2 \<and> ?k c \<and> \<not> ?h c)" by (auto simp: t4_def)
    then show ?thesis using low by (auto simp: slug_char_def)
  qed
  have 1: "list_all (slug_char db) r"
    using t4 set_strip_by[of "\<lambda>c. c = U CHR ''-''" t4] by (auto simp: r_def list_all_iff)
  have 2: "single_hyphens r"
    unfolding r_def t4_def by (intro single_hyphens_strip_by collapse_single) simp
  have 3: "\<not> startswith r (ustr ''-'')"
    using strip_by_hd[of "\<lambda>c. c = U CHR ''-''" t4] by (auto simp: startswith_single r_def)
  have 4: "\<not> endswith r (ustr ''-'')"
    using strip_by_last[of "\<lambda>c. c = U CHR ''-''" t4] by (auto simp: endswith_single r_def)
  from 1 2 3 4 show ?thesis by (simp add: normalized_slug_def r)
qed

lemma slug_char_not_lt: "python_tables db \<Longrightarrow> slug_char db c \<Longrightarrow> c \<noteq> U CHR ''<''"
  using pt_word[of db 60] by (auto simp: slug_char_def)

lemma create_anchor_id_fixed:
  assumes pt: "python_tables db" and n: "normalized_slug db r"
  shows "create_anchor_id db r = r"
proof -
  from n have sc: "\<And>c. c \<in> set r \<Longrightarrow> slug_char db c" and sh: "single_hyphens r"
    and hd: "\<not> startswith r (ustr ''-'')" and lst: "\<not> endswith r (ustr ''-'')"
    by (auto simp: normalized_slug_def list_all_iff)
  have "nowhere (\<lambda>prev s. s \<noteq> [] \<and> hd s = U CHR ''<'') None r"
    by (rule nowhere_hd) (use sc slug_char_not_lt[OF pt] in blast)
  then have 1: "re_sub tag_re (\<lambda>g. []) r = r"
    unfolding re_sub_def by (rule sub_from_id_nowhere) (use tag_re_blocked in blast)
  have 2: "lower db r = r" by (rule pt_lower_fixed[OF pt]) (use sc slug_char_lower[OF pt] in blast)
  have 3: "filter (\<lambda>c. is_word db c \<or> is_space db c \<or> c = U CHR ''-'') r = r"
    by (rule filter_True) (use sc slug_char_word_or_hyphen in blast)
  have 4: "collapse (\<lambda>c. c = U CHR ''-'' \<or> is_space db c) r = r"
    by (rule collapse_id[OF pt]) (use sc sh in \<open>auto simp: list_all_iff\<close>)
  have 5: "strip_by (\<lambda>c. c = U CHR ''-'') r = r"
    by (rule strip_by_id) (use hd lst in \<open>auto simp: startswith_single endswith_single\<close>)
  show ?thesis unfolding create_anchor_id_eq 1 2 3 4 5 by (rule refl)
qed

section \<open>Anchor ids: the claim\<close>

lemma sample_lower_fixed: "sample_lower_chr (sample_lower_chr c) = sample_lower_chr c"
  by (auto simp: sample_lower_chr_def)

lemma python_tables_sample: "python_tables sample_tables"
proof -
  have 1: "\<forall>c<128. is_space sample_tables c = (9 \<le> c \<and> c \<le> 13 \<or> 28 \<le> c \<and> c \<le> 32)"
    by (auto simp: sample_tables_def sample_space_def)
  have 2: "\<forall>c<128. is_digit sample_tables c = (48 \<le> c \<and> c \<le> 57)"
    by (auto simp: sample_tables_def sample_digit_def)
  have 3: "\<forall>c<128. is_word sample_tables c = (48 \<le> c \<and> c \<le> 57 \<or> 65 \<le> c \<and> c \<le> 90 \<or> c = 95 \<or> 97 \<le> c \<and> c \<le> 122)"
    by (auto simp: sample_tables_def sample_word_def)
  have 4: "\<forall>c. is_word sample_tables c \<longrightarrow> \<not> is_space sample_tables c"
    by (auto simp: sample_tables_def sample_word_def sample_space_def)
  have 5: "\<forall>c<128. lower sample_tables [c] = [if 65 \<le> c \<and> c \<le> 90 then c + 32 else c]"
    by (auto simp: sample_tables_def sample_lower_chr_def)
  have 6: "\<forall>s. \<forall>c\<in>set (lower sample_tables s). lower sample_tables [c] = [c]"
    by (auto simp: sample_tables_def sample_lower_fixed)
  have 7: "\<forall>s. (\<forall>c\<in>set s. lower sample_tables [c] = [c]) \<longrightarrow> lower sample_tables s = s"
    by (auto simp: sample_tables_def intro!: map_idI)
  from 1 2 3 4 5 6 7 show ?thesis unfolding python_tables_def by blast
qed

text \<open>
  Claim C8, as stated: the result contains only lower-case word characters and single
  hyphens. It fails for a capital letter that has no lower-case form: U+211D (code point
  8477) is a word character, \<open>lower()\<close> leaves it as it is, and it reaches the result.
\<close>

theorem create_anchor_id_lowercase_counterexample:
  "create_anchor_id sample_tables [8477] = [8477] \<and> is_upper sample_tables 8477"
  by code_simp

text \<open>
  Claim C8, amended. With the tables of the Python runtime, \<open>create_anchor_id\<close> is
  idempotent for every string, and its result is a normalised slug: every character is
  a hyphen or a word character that \<open>lower()\<close> leaves unchanged (which includes capital
  letters without a lower-case form), no two hyphens follow each other, and the result
  neither starts nor ends with a hyphen.
\<close>

theorem create_anchor_id_idempotent_normalized:
  "python_tables db \<Longrightarrow>
   create_anchor_id db (create_anchor_id db s) = create_anchor_id db s
   \<and> normalized_slug db (create_anchor_id db s)"
  by (simp add: create_anchor_id_normalized create_anchor_id_fixed)

theorem create_anchor_id_idempotent_normalized_witness:
  "python_tables sample_tables
   \<and> create_anchor_id sample_tables (ustr ''<b>My</b> Title -- 2.0!'') = ustr ''my-title-20''
   \<and> create_anchor_id sample_tables (ustr ''my-title-20'') = ustr ''my-title-20''
   \<and> normalized_slug sample_tables (ustr ''my-title-20'')"
proof -
  have e: "create_anchor_id sample_tables (ustr ''<b>My</b> Title -- 2.0!'') = ustr ''my-title-20''"
    by code_simp
  have "create_anchor_id sample_tables (create_anchor_id sample_tables (ustr ''<b>My</b> Title -- 2.0!''))
          = create_anchor_id sample_tables (ustr ''<b>My</b> Title -- 2.0!'')
        \<and> normalized_slug sample_tables (create_anchor_id sample_tables (ustr ''<b>My</b> Title -- 2.0!''))"
    by (rule create_anchor_id_idempotent_normalized[OF python_tables_sample])
  then show ?thesis unfolding e using python_tables_sample by blast
qed

section \<open>Tables: the tags are balanced\<close>

lemma run_tags_append:
  "run_tags st (xs @ ys) = (case run_tags st xs of None \<Rightarrow> None | Some st' \<Rightarrow> run_tags st' ys)"
  by (induction st xs rule: run_tags.induct) (auto split: list.splits)

lemma run_tags_cells: "run_tags st (map (Cell n) cs) = Some st"
  by (induction cs) auto

lemma table_loop_balanced:
  "run_tags [] result = Some (if in_table then [''tbody'', ''table''] else []) \<Longrightarrow>
   run_tags [] (table_loop db lines in_table result) = Some []"
proof (induction db lines in_table result rule: table_loop.induct)
  case (1 db in_table result)
  then show ?case by (simp add: run_tags_append)
next
  case (2 db line lines in_table result)
  show ?case
  proof (cases "is_table_line db line")
    case False
    have "run_tags [] ((if in_table then result @ [Close_tag ''tbody'', Close_tag ''table''] else result)
            @ [Copied line]) = Some []"
      using "2.prems" by (simp add: run_tags_append)
    with 2 False show ?thesis by simp
  next
    case True
    show ?thesis
    proof (cases "\<not> in_table \<and> lines \<noteq> [] \<and> re_match (separator_re db) (strip db (hd lines))")
      case hd: True
      have "run_tags [] (result @ [Open_tag ''table'', Open_tag ''thead'', Open_tag ''tr'']
                @ map (Cell ''th'') (cells_of db line)
                @ [Close_tag ''tr'', Close_tag ''thead'', Open_tag ''tbody'']) = Some [''tbody'', ''table'']"
        using "2.prems" hd by (simp add: run_tags_append run_tags_cells)
      with "2.IH"(1)[OF True hd] True hd show ?thesis by simp
    next
      case nohd: False
      define result1 where
        "result1 = (if \<not> in_table then result @ [Open_tag ''table'', Open_tag ''tbody''] else result)"
      have r1: "run_tags [] result1 = Some [''tbody'', ''table'']"
        using "2.prems" by (simp add: result1_def run_tags_append)
      show ?thesis
      proof (cases "re_match (separator_re db) (strip db line)")
        case sep: True
        from "2.IH"(2)[OF True nohd result1_def sep] r1
        show ?thesis using True nohd sep by (auto simp: result1_def Let_def)
      next
        case nosep: False
        have "run_tags [] (result1 @ [Open_tag ''tr''] @ map (Cell ''td'') (cells_of db line) @ [Close_tag ''tr''])
                = Some [''tbody'', ''table'']"
          using r1 by (simp add: run_tags_append run_tags_cells)
        with "2.IH"(3)[OF True nohd result1_def nosep]
        show ?thesis using True nohd nosep by (auto simp: result1_def Let_def)
      qed
    qed
  qed
qed

lemma convert_tables_items_balanced: "tags_balanced (convert_tables_items db html)"
  unfolding tags_balanced_def convert_tables_items_def by (rule table_loop_balanced) simp

subsection \<open>The output string\<close>

lemma scan_plain: "U CHR ''<'' \<notin> set a \<Longrightarrow> scan_tags None (a @ b) = scan_tags None b"
  by (induction a) auto

lemma scan_in_tag:
  "U CHR ''>'' \<notin> set n \<Longrightarrow> scan_tags (Some b0) (n @ U CHR ''>'' # r) = (b0 @ n) # scan_tags None r"
  by (induction n arbitrary: b0) auto

lemma scan_tag:
  "U CHR ''>'' \<notin> set n \<Longrightarrow> scan_tags None (U CHR ''<'' # n @ U CHR ''>'' # r) = n # scan_tags None r"
  using scan_in_tag[of n "[]" r] by simp

lemma tag_name_cases:
  "tag_name n \<Longrightarrow> n = ''table'' \<or> n = ''thead'' \<or> n = ''tbody'' \<or> n = ''tr'' \<or> n = ''th'' \<or> n = ''td''"
  by (auto simp: tag_name_def)

lemma tag_name_no_gt: "tag_name n \<Longrightarrow> U CHR ''>'' \<notin> set (ustr n)"
  by (auto dest!: tag_name_cases)

lemma tag_name_no_slash: "tag_name n \<Longrightarrow> \<not> startswith (ustr n) (ustr ''/'')"
  by (auto dest!: tag_name_cases)

lemma scan_item:
  assumes "item_ok x"
  shows "scan_tags None (item_text x @ r) = tags_of x @ scan_tags None r"
proof (cases x)
  case (Open_tag n)
  with assms have "tag_name n" by simp
  then have "U CHR ''>'' \<notin> set (ustr n)" by (rule tag_name_no_gt)
  from scan_tag[OF this, of r] Open_tag show ?thesis by simp
next
  case (Close_tag n)
  with assms have "tag_name n" by simp
  from tag_name_no_gt[OF this] have "U CHR ''>'' \<notin> set (U CHR ''/'' # ustr n)" by simp
  from scan_tag[OF this, of r] Close_tag show ?thesis by simp
next
  case (Cell n c)
  with assms have tn: "tag_name n" and c: "U CHR ''<'' \<notin> set c" by simp_all
  from tag_name_no_gt[OF tn] have n: "U CHR ''>'' \<notin> set (ustr n)"
    and n2: "U CHR ''>'' \<notin> set (U CHR ''/'' # ustr n)" by simp_all
  have "scan_tags None (item_text x @ r)
        = scan_tags None (U CHR ''<'' # ustr n @ U CHR ''>'' # (c @ (U CHR ''<'' # (U CHR ''/'' # ustr n) @ U CHR ''>'' # r)))"
    using Cell by simp
  also have "\<dots> = ustr n # scan_tags None (c @ (U CHR ''<'' # (U CHR ''/'' # ustr n) @ U CHR ''>'' # r))"
    by (rule scan_tag[OF n])
  also have "\<dots> = ustr n # scan_tags None (U CHR ''<'' # (U CHR ''/'' # ustr n) @ U CHR ''>'' # r)"
    by (simp only: scan_plain[OF c])
  also have "\<dots> = ustr n # (U CHR ''/'' # ustr n) # scan_tags None r"
    by (simp only: scan_tag[OF n2])
  finally show ?thesis using Cell by simp
next
  case (Copied l)
  with assms show ?thesis by (simp add: scan_plain)
qed

lemma scan_join:
  "list_all item_ok xs \<Longrightarrow> scan_tags None (join [NL] (map item_text xs) @ r) = concat (map tags_of xs) @ scan_tags None r"
proof (induction xs rule: induct_list012)
  case 1
  then show ?case by simp
next
  case (2 x)
  then show ?case by (simp add: scan_item)
next
  case (3 x y zs)
  have "scan_tags None (join [NL] (map item_text (x # y # zs)) @ r)
        = scan_tags None (item_text x @ ([NL] @ (join [NL] (map item_text (y # zs)) @ r)))" by simp
  also have "\<dots> = tags_of x @ scan_tags None ([NL] @ (join [NL] (map item_text (y # zs)) @ r))"
    using 3(3) by (intro scan_item) simp
  also have "scan_tags None ([NL] @ (join [NL] (map item_text (y # zs)) @ r))
             = scan_tags None (join [NL] (map item_text (y # zs)) @ r)"
    by (rule scan_plain) simp
  also have "\<dots> = concat (map tags_of (y # zs)) @ scan_tags None r"
    using 3 by simp
  finally show ?case by simp
qed

lemma ustr_eq_iff: "ustr m = ustr n \<longleftrightarrow> m = n"
  by (simp add: ustr_def inj_map_eq_map inj_on_def)

lemma check_run:
  "list_all item_ok xs \<Longrightarrow> check_tags (map ustr st) (concat (map tags_of xs)) = (run_tags st xs = Some [])"
proof (induction xs arbitrary: st)
  case Nil
  then show ?case by simp
next
  case (Cons x xs)
  from Cons.prems have ok: "list_all item_ok xs" by simp
  note IH = Cons.IH[OF ok]
  show ?case
  proof (cases x)
    case (Open_tag n)
    with Cons.prems have "tag_name n" by simp
    from tag_name_no_slash[OF this] IH[of "n # st"] Open_tag show ?thesis by simp
  next
    case (Close_tag n)
    then show ?thesis using IH ustr_eq_iff by (cases st) auto
  next
    case (Cell n c)
    with Cons.prems have "tag_name n" by simp
    from tag_name_no_slash[OF this] IH[of st] Cell show ?thesis by simp
  next
    case (Copied l)
    with IH[of st] show ?thesis by simp
  qed
qed

lemma set_split_chr: "p \<in> set (split_chr sep s) \<Longrightarrow> set p \<subseteq> set s"
proof (induction s arbitrary: p)
  case Nil
  then show ?case by simp
next
  case (Cons c s)
  show ?case
  proof (cases "c = sep")
    case True
    with Cons show ?thesis by auto
  next
    case False
    obtain x xs where sp: "split_chr sep s = x # xs" by (cases s; cases "split_chr sep s"; auto split: list.splits if_splits)
    with False Cons.prems have "p = c # x \<or> p \<in> set xs" by auto
    then show ?thesis using Cons.IH[of x] Cons.IH[of p] sp by auto
  qed
qed

lemma in_set_tl: "x \<in> set (tl xs) \<Longrightarrow> x \<in> set xs"
  by (cases xs) auto

lemma cells_no_lt: "U CHR ''<'' \<notin> set line \<Longrightarrow> c \<in> set (cells_of db line) \<Longrightarrow> U CHR ''<'' \<notin> set c"
proof -
  assume l: "U CHR ''<'' \<notin> set line" and c: "c \<in> set (cells_of db line)"
  from c obtain p where p: "p \<in> set (split_chr (U CHR ''|'') (strip db line))" and cp: "c = strip db p"
    unfolding cells_of_def by (auto dest!: in_set_butlastD in_set_tl)
  from set_split_chr[OF p] set_strip_by[of "is_space db" line] set_strip_by[of "is_space db" p] l cp
  show ?thesis by (auto simp: strip_def)
qed

lemma table_loop_ok:
  "(\<And>l. l \<in> set lines \<Longrightarrow> U CHR ''<'' \<notin> set l) \<Longrightarrow> list_all item_ok result \<Longrightarrow>
   list_all item_ok (table_loop db lines in_table result)"
proof (induction lines arbitrary: in_table result)
  case Nil
  then show ?case by (simp add: tag_name_def)
next
  case (Cons line lines)
  have cells: "list_all item_ok (map (Cell n) (cells_of db line))" if "tag_name n" for n
    using that cells_no_lt[of line _ db] Cons.prems(1)[of line] by (auto simp: list_all_iff)
  have names: "tag_name ''table''" "tag_name ''thead''" "tag_name ''tbody''" "tag_name ''tr''"
    "tag_name ''th''" "tag_name ''td''" by (simp_all add: tag_name_def)
  have line: "U CHR ''<'' \<notin> set line" using Cons.prems(1) by simp
  have IH: "list_all item_ok (table_loop db lines b r)" if "list_all item_ok r" for b r
    using that Cons.prems(1) by (intro Cons.IH) auto
  show ?case
    using Cons.prems(2) line names cells[OF names(5)] cells[OF names(6)]
    by (auto simp: Let_def intro!: IH)
qed

lemma convert_tables_items_ok:
  "U CHR ''<'' \<notin> set html \<Longrightarrow> list_all item_ok (convert_tables_items db html)"
  unfolding convert_tables_items_def
  by (rule table_loop_ok) (use set_split_chr in auto)

lemma convert_tables_html_balanced:
  assumes "U CHR ''<'' \<notin> set html"
  shows "html_balanced (convert_tables db html)"
proof -
  let ?xs = "convert_tables_items db html"
  have ok: "list_all item_ok ?xs" using assms by (rule convert_tables_items_ok)
  have "scan_tags None (join [NL] (map item_text ?xs) @ []) = concat (map tags_of ?xs) @ scan_tags None []"
    using ok by (rule scan_join)
  then have "scan_tags None (convert_tables db html) = concat (map tags_of ?xs)"
    by (simp add: convert_tables_def)
  moreover have "check_tags (map ustr []) (concat (map tags_of ?xs)) = (run_tags [] ?xs = Some [])"
    using ok by (rule check_run)
  moreover have "run_tags [] ?xs = Some []"
    using convert_tables_items_balanced[of db html] by (simp add: tags_balanced_def)
  ultimately show ?thesis by (simp add: html_balanced_def)
qed

text \<open>
  Claim C6, as stated: for every input the output string has balanced table tags. It
  fails, because lines that are not table rows are copied as they are: on the input
  \<open>\<^verbatim>\<open><table>\<close>\<close> the output is \<open>\<^verbatim>\<open><table>\<close>\<close>, an opening tag that is never closed.
\<close>

theorem convert_tables_unbalanced_counterexample:
  "convert_tables sample_tables (ustr ''<table>'') = ustr ''<table>''
   \<and> \<not> html_balanced (convert_tables sample_tables (ustr ''<table>''))"
  by code_simp

text \<open>
  Claim C6, amended. For every input string, the tags that \<open>convert_tables\<close> itself
  writes are balanced: every \<open>table\<close>, \<open>thead\<close>, \<open>tbody\<close> and \<open>tr\<close> it opens is
  closed later, in the right order, also when the input ends inside a table. The output
  is the join of these tags, the cells and the copied lines; text copied from the input
  is not checked. When the input contains no \<open>\<^verbatim>\<open><\<close>\<close>, the output string as a whole has
  balanced tags.
\<close>

theorem convert_tables_balanced:
  "tags_balanced (convert_tables_items db html)
   \<and> convert_tables db html = join [NL] (map item_text (convert_tables_items db html))
   \<and> (U CHR ''<'' \<notin> set html \<longrightarrow> html_balanced (convert_tables db html))"
  using convert_tables_items_balanced convert_tables_html_balanced by (simp add: convert_tables_def)

theorem convert_tables_balanced_witness:
  "U CHR ''<'' \<notin> set (ustr ''| a |'' @ [NL] @ ustr ''|---|'' @ [NL] @ ustr ''| 1 |'')
   \<and> tags_balanced (convert_tables_items sample_tables (ustr ''| a |'' @ [NL] @ ustr ''|---|'' @ [NL] @ ustr ''| 1 |''))
   \<and> html_balanced (convert_tables sample_tables (ustr ''| a |'' @ [NL] @ ustr ''|---|'' @ [NL] @ ustr ''| 1 |''))"
proof -
  have h: "U CHR ''<'' \<notin> set (ustr ''| a |'' @ [NL] @ ustr ''|---|'' @ [NL] @ ustr ''| 1 |'')" by simp
  with convert_tables_balanced[of sample_tables "ustr ''| a |'' @ [NL] @ ustr ''|---|'' @ [NL] @ ustr ''| 1 |''"]
  show ?thesis by blast
qed

section \<open>The passes of the converter, one by one\<close>

subsection \<open>Passes that change nothing\<close>

lemma re_sub_id_hd:
  assumes "\<And>c. c \<in> set s \<Longrightarrow> \<not> p c"
    and "\<And>prev s. s = [] \<or> \<not> p (hd s) \<Longrightarrow> ms r (prev, s, Map.empty) = []"
  shows "re_sub r f s = s"
  unfolding re_sub_def
proof (rule sub_from_id_nowhere)
  show "nowhere (\<lambda>prev s. s \<noteq> [] \<and> p (hd s)) None s" by (rule nowhere_hd) (rule assms(1))
  show "\<And>prev s. \<not> (s \<noteq> [] \<and> p (hd s)) \<Longrightarrow> ms r (prev, s, Map.empty) = []"
    using assms(2) by blast
qed

lemma nowhere_not_bol:
  "NL \<notin> set s \<Longrightarrow> \<not> at_bol prev \<Longrightarrow> nowhere (\<lambda>prev s. at_bol prev \<and> Q s) prev s"
  by (induction s arbitrary: prev) (auto simp: at_bol_def)

lemma nowhere_one_line:
  assumes "NL \<notin> set s" and "\<not> Q s"
  shows "nowhere (\<lambda>prev s. at_bol prev \<and> Q s) prev s"
proof (cases s)
  case Nil
  with assms show ?thesis by simp
next
  case (Cons c cs)
  with assms have "nowhere (\<lambda>prev s. at_bol prev \<and> Q s) (Some c) cs"
    by (intro nowhere_not_bol) (auto simp: at_bol_def)
  with Cons assms show ?thesis by simp
qed

lemma re_sub_id_one_line:
  assumes "NL \<notin> set s" and "\<not> Q s"
    and "\<And>prev s. \<not> (at_bol prev \<and> Q s) \<Longrightarrow> ms r (prev, s, Map.empty) = []"
  shows "re_sub r f s = s"
  unfolding re_sub_def
proof (rule sub_from_id_nowhere)
  show "nowhere (\<lambda>prev s. at_bol prev \<and> Q s) None s" using assms(1,2) by (rule nowhere_one_line)
  show "\<And>prev s. \<not> (at_bol prev \<and> Q s) \<Longrightarrow> ms r (prev, s, Map.empty) = []" by (rule assms(3))
qed

subsection \<open>Where the patterns of the converter cannot match\<close>

lemma ms_seq_Bol: "ms (Seq Bol r) (prev, s, g) = (if at_bol prev then ms r (prev, s, g) else [])"
  by (auto simp: at_bol_def)

lemma ms_seq_lit:
  "ms (Seq (lit w) r) (prev, s, g) = (if startswith s w then ms r (prev_after prev w, drop (length w) s, g) else [])"
  by (simp add: ms_lit)

lemma ms_seq_chr:
  "ms (Seq (Chr f) r) (prev, s, g) = (case s of [] \<Rightarrow> [] | c # cs \<Rightarrow> if f c then ms r (Some c, cs, g) else [])"
  by (cases s) auto

lemma ms_seq_empty: "ms r1 p = [] \<Longrightarrow> ms (Seq r1 r2) p = []"
  by simp

lemma startswith_Cons_hd: "startswith s (c # w) \<Longrightarrow> s \<noteq> [] \<and> hd s = c"
  by (cases s) auto

declare lit.simps [simp del]

lemma header_re_blocked:
  "\<not> (at_bol prev \<and> startswith s (ustr (m @ '' ''))) \<Longrightarrow> ms (header_re m) (prev, s, g) = []"
  unfolding header_re_def seqs.simps ms_seq_Bol ms_seq_lit by auto

lemma code_block_re_blocked: "s = [] \<or> hd s \<noteq> U CHR ''`'' \<Longrightarrow> ms (code_block_re db) (prev, s, g) = []"
  unfolding code_block_re_def seqs.simps ms_seq_lit by (auto dest: startswith_Cons_hd)

lemma inline_code_re_blocked: "s = [] \<or> hd s \<noteq> U CHR ''`'' \<Longrightarrow> ms inline_code_re (prev, s, g) = []"
  unfolding inline_code_re_def seqs.simps ms_seq_lit by (auto dest: startswith_Cons_hd)

lemma bold_italic_re_blocked: "s = [] \<or> hd s \<noteq> U CHR ''*'' \<Longrightarrow> ms bold_italic_re (prev, s, g) = []"
  unfolding bold_italic_re_def seqs.simps ms_seq_lit by (auto dest: startswith_Cons_hd)

lemma bold_re_blocked: "s = [] \<or> hd s \<noteq> U CHR ''*'' \<Longrightarrow> ms bold_re (prev, s, g) = []"
  unfolding bold_re_def seqs.simps ms_seq_lit by (auto dest: startswith_Cons_hd)

lemma italic_re_blocked: "s = [] \<or> hd s \<noteq> U CHR ''*'' \<Longrightarrow> ms italic_re (prev, s, g) = []"
  unfolding italic_re_def seqs.simps ms_seq_lit by (auto dest: startswith_Cons_hd)

lemma link_re_blocked: "s = [] \<or> hd s \<noteq> U CHR ''['' \<Longrightarrow> ms link_re (prev, s, g) = []"
  unfolding link_re_def seqs.simps ms_seq_lit by (auto dest: startswith_Cons_hd)

lemma numbered_item_re_blocked:
  "\<not> (at_bol prev \<and> s \<noteq> [] \<and> is_digit db (hd s)) \<Longrightarrow> ms (numbered_item_re db) (prev, s, g) = []"
  unfolding numbered_item_re_def seqs.simps ms_seq_Bol
  by (cases s) (auto intro!: ms_seq_empty simp: ms_grp_plus_chr)

lemma bullet_item_re_blocked:
  "\<not> (at_bol prev \<and> s \<noteq> [] \<and> hd s \<in> {U CHR ''-'', U CHR ''*'', U CHR ''+''}) \<Longrightarrow>
   ms bullet_item_re (prev, s, g) = []"
  unfolding bullet_item_re_def seqs.simps ms_seq_Bol ms_seq_chr
  by (cases s) auto

lemma list_block_re_blocked: "\<not> startswith s (ustr ''<li>'') \<Longrightarrow> ms (list_block_re db) (prev, s, g) = []"
  unfolding list_block_re_def seqs.simps ms_grp_unfold ms_seq_lit by simp

lemma blockquote_re_blocked:
  "\<not> (at_bol prev \<and> s \<noteq> [] \<and> hd s = U CHR ''>'') \<Longrightarrow> ms blockquote_re (prev, s, g) = []"
  unfolding blockquote_re_def seqs.simps ms_seq_Bol ms_seq_lit by (auto dest: startswith_Cons_hd)

lemma hr_re_blocked:
  "\<not> (at_bol prev \<and> s \<noteq> [] \<and> hd s = U CHR ''-'') \<Longrightarrow> ms hr_re (prev, s, g) = []"
  unfolding hr_re_def seqs.simps ms_seq_Bol ms_seq_lit by (auto dest: startswith_Cons_hd)

end
